theory Spec2Isabelle
  imports Main "HOL-Library.Char_ord" "HOL-Library.List_Lexorder" "HOL-Library.Multiset"
    "HOL-Library.Sublist"
begin

section \<open>Data model of \<^verbatim>\<open>main.go\<close>\<close>

text \<open>
  The structs of the program, field by field. Go's \<^verbatim>\<open>int\<close> is modelled by \<^typ>\<open>int\<close>: the
  program does no arithmetic on these fields beyond comparing a length with the configured
  count. A Go \<^verbatim>\<open>string\<close> is a byte sequence, here a \<^typ>\<open>string\<close>; \<^verbatim>\<open>len\<close> counts bytes.
  Field names are constants here, so two of them carry the name of their struct: the \<^verbatim>\<open>ID\<close> of
  a \<^verbatim>\<open>Location\<close> is \<open>Location_ID\<close>, and the \<^verbatim>\<open>Location\<close> of an \<^verbatim>\<open>Order\<close> is \<open>Order_Location\<close>.
\<close>

record Config =
  Location :: string
  AppointmentCount :: int
  ScheduleTime :: string
  BaseURL :: string

record Location =
  Location_ID :: int
  Nome :: string

record Order =
  ID :: int
  DataInicio :: string
  DataFim :: string
  VagasCount :: string
  Order_Location :: Location

record BookingRequest =
  IDOrdem :: int
  Data :: string
  Hora :: string

record BookingResponse =
  CodigoVaga :: string
  Agendou :: int

record TimeSlot =
  OrderID :: int
  Date :: string
  Time :: string

section \<open>Errors, panics and the environment\<close>

text \<open>
  One constructor for each \<^verbatim>\<open>fmt.Errorf\<close> of the program, carrying the wrapped error or the
  formatted arguments, and two for the errors that library calls hand back: \<open>External\<close> for
  \<^verbatim>\<open>net/http\<close>, \<^verbatim>\<open>io\<close> and \<^verbatim>\<open>encoding/json\<close>, \<open>TimeParseError\<close> for \<^verbatim>\<open>time.Parse\<close>.
\<close>

datatype error =
    External string
  | TimeParseError
  | FailedToGetOrders error
  | NoOrdersAvailable
  | FailedToCollectTimeSlots error
  | NoTimeSlotsAvailable
  | NoUniqueSlotsAvailable
  | AllBookingAttemptsFailed
  | HTTPRequestFailed error
  | FailedToReadResponse error
  | FailedToParseJSON error
  | HTTPError int string
  | FailedToParseJSONResponse error
  | InvalidDateFormat error
  | FailedToMarshalRequest error
  | FailedToParseResponse error
  | BookingNotSuccessful int

text \<open>A Go call either returns or panics at run time (here: a slice bound out of range).\<close>

datatype 'a go_result = Panicked | Returned 'a

text \<open>
  How a call made by the main goroutine ends while other goroutines run beside it.
  \<open>Completed x\<close>: the call returns \<open>x\<close> and no goroutine has panicked. \<open>Dying x\<close>: a goroutine
  has panicked; nothing recovers the panic, so once the deferred functions of that goroutine
  have run the runtime prints the panic and ends the whole process with exit status 2. The
  main goroutine runs on until that moment, and \<open>x\<close> is what the call returns, and has
  printed, if it gets to its end first.
\<close>

datatype 'a ending = Completed 'a | Dying 'a

text \<open>
  What \<^verbatim>\<open>httpClient.Get\<close> and \<^verbatim>\<open>httpClient.Post\<close> hand back when the transport succeeds: the
  status code and the outcome of \<^verbatim>\<open>io.ReadAll(resp.Body)\<close>.
\<close>

record http_Response =
  StatusCode :: int
  Body :: "error + string"

text \<open>
  A \<^verbatim>\<open>time.Time\<close> in UTC, by its civil fields (the values of its methods \<^verbatim>\<open>Year\<close>, \<^verbatim>\<open>Month\<close>,
  \<^verbatim>\<open>Day\<close>, ...).
\<close>

record go_Time =
  Year :: int
  Month :: int
  Day :: int
  Hour :: int
  Minute :: int
  Second :: int
  Nanosecond :: int

text \<open>
  Everything the program reaches outside its own code, as parameters: the remote service
  behind the HTTP client (answering a request by its URL and body), the JSON codec, the
  library sort, URL escaping, the weekday-and-month rendering of a date, and the target
  date \<^verbatim>\<open>s.getNextWorkingDay().Format("2006-01-02")\<close>, which depends on the wall clock and is
  taken as fixed during one run. \<^verbatim>\<open>sort.Slice\<close> gets the comparison as the program passes it.
\<close>

record env =
  httpGet :: "string \<Rightarrow> error + http_Response"
  httpPost :: "string \<Rightarrow> string \<Rightarrow> string \<Rightarrow> error + http_Response"
  json_Unmarshal_orders :: "string \<Rightarrow> error + Order list"
  json_Unmarshal_strings :: "string \<Rightarrow> error + string list"
  json_Unmarshal_booking :: "string \<Rightarrow> error + BookingResponse"
  json_Marshal :: "BookingRequest \<Rightarrow> error + string"
  sort_Slice :: "(TimeSlot \<Rightarrow> TimeSlot \<Rightarrow> bool) \<Rightarrow> TimeSlot list \<Rightarrow> TimeSlot list"
  url_QueryEscape :: "string \<Rightarrow> string"
  time_Format_day :: "go_Time \<Rightarrow> string"
  targetDate :: string

section \<open>Dates: \<^verbatim>\<open>time.Parse\<close>, \<^verbatim>\<open>time.Date\<close> and \<^verbatim>\<open>Format\<close> for the layouts used\<close>

definition isDigit :: "string \<Rightarrow> nat \<Rightarrow> bool" where
  "isDigit s i = (if length s \<le> i then False else CHR ''0'' \<le> s ! i \<and> s ! i \<le> CHR ''9'')"

definition digitVal :: "char \<Rightarrow> int" where
  "digitVal c = int (of_char c) - int (of_char CHR ''0'')"

text \<open>\<^verbatim>\<open>leadingInt\<close> consumes the leading digits; its overflow guard cannot fire on four bytes.\<close>

fun leadingInt :: "string \<Rightarrow> int \<Rightarrow> int \<times> string" where
  "leadingInt [] x = (x, [])"
| "leadingInt (c # cs) x =
     (if c < CHR ''0'' \<or> CHR ''9'' < c then (x, c # cs) else leadingInt cs (x * 10 + digitVal c))"

definition atoi :: "string \<Rightarrow> int option" where
  "atoi s =
     (let neg = (s \<noteq> [] \<and> hd s = CHR ''-'');
          s' = (if s \<noteq> [] \<and> (hd s = CHR ''-'' \<or> hd s = CHR ''+'') then tl s else s);
          (q, rem) = leadingInt s' 0
      in if rem \<noteq> [] then None else Some (if neg then - q else q))"

text \<open>\<^verbatim>\<open>getnum\<close>: one or two digits; with \<open>fixed\<close>, exactly two.\<close>

definition getnum :: "string \<Rightarrow> bool \<Rightarrow> (int \<times> string) option" where
  "getnum s fixed =
     (if \<not> isDigit s 0 then None
      else if \<not> isDigit s 1 then (if fixed then None else Some (digitVal (s ! 0), drop 1 s))
      else Some (digitVal (s ! 0) * 10 + digitVal (s ! 1), drop 2 s))"

text \<open>\<^verbatim>\<open>skip\<close> for a layout prefix without blanks (the layout here has only \<^verbatim>\<open>-\<close>).\<close>

fun skip :: "string \<Rightarrow> string \<Rightarrow> string option" where
  "skip val [] = Some val"
| "skip val (p # pre) =
     (case val of [] \<Rightarrow> None | v # val' \<Rightarrow> if v \<noteq> p then None else skip val' pre)"

definition isLeap :: "int \<Rightarrow> bool" where
  "isLeap year = (year mod 4 = 0 \<and> (year mod 100 \<noteq> 0 \<or> year mod 400 = 0))"

definition daysBefore :: "int list" where
  "daysBefore = [0, 31, 59, 90, 120, 151, 181, 212, 243, 273, 304, 334, 365]"

definition daysIn :: "int \<Rightarrow> int \<Rightarrow> int" where
  "daysIn m year =
     (if m = 2 \<and> isLeap year then 29 else daysBefore ! nat m - daysBefore ! nat (m - 1))"

text \<open>
  \<^verbatim>\<open>time.Date\<close> normalises fields that are out of range. The program calls it on the fields of
  a parsed date and constant clock fields, which are in range (\<open>time_Parse_in_range\<close> below),
  where it changes nothing.
\<close>

definition time_Date :: "int \<Rightarrow> int \<Rightarrow> int \<Rightarrow> int \<Rightarrow> int \<Rightarrow> int \<Rightarrow> int \<Rightarrow> go_Time" where
  "time_Date y m d h mi s ns =
     \<lparr>Year = y, Month = m, Day = d, Hour = h, Minute = mi, Second = s, Nanosecond = ns\<rparr>"

text \<open>
  \<^verbatim>\<open>time.Parse("2006-01-02", value)\<close>: a four-digit year, two-digit month and day, the range
  check of the month, no text left over, and the day checked against the month's length.
\<close>

definition time_Parse :: "string \<Rightarrow> error + go_Time" where
  "time_Parse val =
     (if length val < 4 \<or> \<not> isDigit val 0 then Inl TimeParseError
      else case atoi (take 4 val) of None \<Rightarrow> Inl TimeParseError | Some year \<Rightarrow>
       (case skip (drop 4 val) ''-'' of None \<Rightarrow> Inl TimeParseError | Some v1 \<Rightarrow>
       (case getnum v1 True of None \<Rightarrow> Inl TimeParseError | Some (month, v2) \<Rightarrow>
         if month \<le> 0 \<or> 12 < month then Inl TimeParseError
         else (case skip v2 ''-'' of None \<Rightarrow> Inl TimeParseError | Some v3 \<Rightarrow>
          (case getnum v3 True of None \<Rightarrow> Inl TimeParseError | Some (day, v4) \<Rightarrow>
            if length v4 \<noteq> 0 then Inl TimeParseError
            else if day < 1 \<or> daysIn month year < day then Inl TimeParseError
            else Inr (time_Date year month day 0 0 0 0))))))"

definition digitChar :: "nat \<Rightarrow> char" where
  "digitChar n = char_of (of_char CHR ''0'' + n)"

fun decimal :: "nat \<Rightarrow> string" where
  "decimal n = (if n < 10 then [digitChar n] else decimal (n div 10) @ [digitChar (n mod 10)])"

declare decimal.simps [simp del]

text \<open>\<^verbatim>\<open>appendInt\<close>: the decimal digits of \<open>x\<close>, padded with zeros on the left up to \<open>width\<close>.\<close>

definition appendInt :: "int \<Rightarrow> nat \<Rightarrow> string" where
  "appendInt x width =
     (let ds = decimal (nat \<bar>x\<bar>)
      in (if x < 0 then ''-'' else []) @ replicate (width - length ds) CHR ''0'' @ ds)"

text \<open>\<^verbatim>\<open>t.Format("2006-01-02T15:04:05.000Z")\<close>; the final \<^verbatim>\<open>Z\<close> of this layout is a literal.\<close>

definition time_Format_ms :: "go_Time \<Rightarrow> string" where
  "time_Format_ms t =
     appendInt (Year t) 4 @ ''-'' @ appendInt (Month t) 2 @ ''-'' @ appendInt (Day t) 2 @ ''T'' @
     appendInt (Hour t) 2 @ '':'' @ appendInt (Minute t) 2 @ '':'' @ appendInt (Second t) 2 @
     ''.'' @ take 3 (appendInt (Nanosecond t) 9) @ ''Z''"

text \<open>\<^verbatim>\<open>%d\<close> of \<^verbatim>\<open>fmt.Sprintf\<close>.\<close>

definition fmt_d :: "int \<Rightarrow> string" where
  "fmt_d x = appendInt x 0"

section \<open>Slot selection\<close>

text \<open>
  \<^verbatim>\<open>selectUniqueSlots\<close>: the loop over \<^verbatim>\<open>allSlots\<close> with its two local variables. The Go map
  \<^verbatim>\<open>usedTimes\<close> of type \<^verbatim>\<open>map[string]bool\<close> reads \<^verbatim>\<open>false\<close> at a missing key, so it is a total
  function that starts as constantly \<^term>\<open>False\<close>. The log lines after the loop are left out.
\<close>

fun selectLoop :: "int \<Rightarrow> TimeSlot list \<Rightarrow> (string \<Rightarrow> bool) \<Rightarrow> TimeSlot list \<Rightarrow> TimeSlot list" where
  "selectLoop k [] usedTimes selectedSlots = selectedSlots"
| "selectLoop k (slot # rest) usedTimes selectedSlots =
     (if \<not> usedTimes (Time slot) \<and> int (length selectedSlots) < k
      then selectLoop k rest (usedTimes(Time slot := True)) (selectedSlots @ [slot])
      else selectLoop k rest usedTimes selectedSlots)"

definition selectUniqueSlots :: "Config \<Rightarrow> TimeSlot list \<Rightarrow> TimeSlot list" where
  "selectUniqueSlots cfg allSlots = selectLoop (AppointmentCount cfg) allSlots (\<lambda>_. False) []"

section \<open>Remote calls\<close>

text \<open>
  \<^verbatim>\<open>getAvailableOrders\<close>: no status check here, as in the source. Log lines are left out
  throughout; \<^verbatim>\<open>defer resp.Body.Close()\<close> has no effect on the values.
\<close>

definition getAvailableOrders :: "env \<Rightarrow> Config \<Rightarrow> error + Order list" where
  "getAvailableOrders e cfg =
     (let url = BaseURL cfg @ ''/ordens/public?data_inicial='' @ targetDate e @
                ''&data_final='' @ targetDate e
      in case httpGet e url of
           Inl err \<Rightarrow> Inl (HTTPRequestFailed err)
         | Inr resp \<Rightarrow>
            (case Body resp of
               Inl err \<Rightarrow> Inl (FailedToReadResponse err)
             | Inr body \<Rightarrow>
                (case json_Unmarshal_orders e body of
                   Inl err \<Rightarrow> Inl (FailedToParseJSON err)
                 | Inr orders \<Rightarrow> Inr orders)))"

definition getAvailableDates :: "env \<Rightarrow> Config \<Rightarrow> int \<Rightarrow> error + string list" where
  "getAvailableDates e cfg orderID =
     (let url = BaseURL cfg @ ''/ordens/public/datas?ordem='' @ fmt_d orderID
      in case httpGet e url of
           Inl err \<Rightarrow> Inl err
         | Inr resp \<Rightarrow>
            (case Body resp of
               Inl err \<Rightarrow> Inl err
             | Inr body \<Rightarrow>
                (case json_Unmarshal_strings e body of
                   Inl err \<Rightarrow> Inl err
                 | Inr dates \<Rightarrow> Inr dates)))"

definition getAvailableTimes :: "env \<Rightarrow> Config \<Rightarrow> int \<Rightarrow> string \<Rightarrow> error + string list" where
  "getAvailableTimes e cfg orderID dateStr =
     (case time_Parse dateStr of
        Inl err \<Rightarrow> Inl err
      | Inr date \<Rightarrow>
         (let formattedDate = time_Format_day e date @ '' 03:00:00 GMT'';
              encodedDate = url_QueryEscape e formattedDate;
              apiURL = BaseURL cfg @ ''/vagas/horas?ordem='' @ fmt_d orderID @ ''&data='' @ encodedDate
          in case httpGet e apiURL of
               Inl err \<Rightarrow> Inl err
             | Inr resp \<Rightarrow>
                (case Body resp of
                   Inl err \<Rightarrow> Inl err
                 | Inr body \<Rightarrow>
                    if StatusCode resp \<noteq> 200 then Inl (HTTPError (StatusCode resp) body)
                    else (case json_Unmarshal_strings e body of
                            Inl err \<Rightarrow> Inl (FailedToParseJSONResponse err)
                          | Inr times' \<Rightarrow> Inr times'))))"

section \<open>Slot collection\<close>

text \<open>The inner loop of \<^verbatim>\<open>collectAllTimeSlots\<close> that sets \<^verbatim>\<open>dateFound\<close>.\<close>

fun dateFound :: "string \<Rightarrow> string list \<Rightarrow> bool" where
  "dateFound targetDateStr [] = False"
| "dateFound targetDateStr (dateStr # dates) =
     (if dateStr = targetDateStr then True else dateFound targetDateStr dates)"

text \<open>
  The loop over the orders, with \<^verbatim>\<open>allSlots\<close> as accumulator; each \<^verbatim>\<open>continue\<close> is the
  recursive call on the unchanged accumulator.
\<close>

fun collectLoop :: "env \<Rightarrow> Config \<Rightarrow> string \<Rightarrow> Order list \<Rightarrow> TimeSlot list \<Rightarrow> TimeSlot list" where
  "collectLoop e cfg targetDateStr [] allSlots = allSlots"
| "collectLoop e cfg targetDateStr (order # orders) allSlots =
     (case getAvailableDates e cfg (ID order) of
        Inl err \<Rightarrow> collectLoop e cfg targetDateStr orders allSlots
      | Inr dates \<Rightarrow>
         if \<not> dateFound targetDateStr dates then collectLoop e cfg targetDateStr orders allSlots
         else (case getAvailableTimes e cfg (ID order) targetDateStr of
                 Inl err \<Rightarrow> collectLoop e cfg targetDateStr orders allSlots
               | Inr times' \<Rightarrow>
                  collectLoop e cfg targetDateStr orders
                    (allSlots @ map (\<lambda>timeStr. \<lparr>OrderID = ID order, Date = targetDateStr,
                                                Time = timeStr\<rparr>) times')))"

text \<open>
  \<^verbatim>\<open>collectAllTimeSlots\<close> returns the pair of Go: the slots and the error, which is the
  \<^verbatim>\<open>nil\<close> of its only \<^verbatim>\<open>return\<close>. The comparison handed to \<^verbatim>\<open>sort.Slice\<close> is \<^verbatim>\<open><\<close> on the
  \<^verbatim>\<open>Time\<close> strings, bytewise lexicographic.
\<close>

definition collectAllTimeSlots :: "env \<Rightarrow> Config \<Rightarrow> Order list \<Rightarrow> TimeSlot list \<times> error option" where
  "collectAllTimeSlots e cfg orders =
     (let targetDateStr = targetDate e;
          allSlots = collectLoop e cfg targetDateStr orders []
      in (sort_Slice e (\<lambda>a b. Time a < Time b) allSlots, None))"

section \<open>Booking one slot\<close>

record BookingResult =
  response :: BookingResponse
  err :: "error option"

definition zeroBookingResponse :: BookingResponse where
  "zeroBookingResponse = \<lparr>CodigoVaga = [], Agendou = 0\<rparr>"

text \<open>The slice expression \<^verbatim>\<open>s[:n]\<close>: a run-time panic when \<open>n\<close> exceeds the length.\<close>

definition slice_to :: "string \<Rightarrow> nat \<Rightarrow> string go_result" where
  "slice_to s n = (if length s < n then Panicked else Returned (take n s))"

text \<open>
  \<^verbatim>\<open>bookAppointment\<close> in two parts. Its first statements, up to the \<^verbatim>\<open>BookingRequest\<close> literal,
  build the request or stop with the date error or the panic of the slice expression.
\<close>

definition bookingRequest :: "TimeSlot \<Rightarrow> (error + BookingRequest) go_result" where
  "bookingRequest slot =
     (case time_Parse (Date slot) of
        Inl e \<Rightarrow> Returned (Inl (InvalidDateFormat e))
      | Inr date \<Rightarrow>
         (let utcDate = time_Date (Year date) (Month date) (Day date) 3 0 0 0
          in case slice_to (Time slot) 5 of
               Panicked \<Rightarrow> Panicked
             | Returned timeParts \<Rightarrow>
                Returned (Inr \<lparr>IDOrdem = OrderID slot, Data = time_Format_ms utcDate,
                               Hora = timeParts\<rparr>)))"

text \<open>
  The rest: marshal, post, read, the status check, decode, and the check of \<^verbatim>\<open>agendou\<close>.
  The result is the pair that Go returns: the response and the error (\<^verbatim>\<open>nil\<close> is \<open>None\<close>).
\<close>

definition submitBooking :: "env \<Rightarrow> Config \<Rightarrow> BookingRequest \<Rightarrow> BookingResponse \<times> error option" where
  "submitBooking e cfg request =
     (case json_Marshal e request of
        Inl er \<Rightarrow> (zeroBookingResponse, Some (FailedToMarshalRequest er))
      | Inr requestBody \<Rightarrow>
         (let url = BaseURL cfg @ ''/vagas''
          in case httpPost e url ''application/json'' requestBody of
               Inl er \<Rightarrow> (zeroBookingResponse, Some (HTTPRequestFailed er))
             | Inr resp \<Rightarrow>
                (case Body resp of
                   Inl er \<Rightarrow> (zeroBookingResponse, Some (FailedToReadResponse er))
                 | Inr responseBody \<Rightarrow>
                    if StatusCode resp \<noteq> 200
                    then (zeroBookingResponse, Some (HTTPError (StatusCode resp) responseBody))
                    else (case json_Unmarshal_booking e responseBody of
                            Inl er \<Rightarrow> (zeroBookingResponse, Some (FailedToParseResponse er))
                          | Inr bookingResponse \<Rightarrow>
                             if Agendou bookingResponse \<noteq> 1
                             then (zeroBookingResponse,
                                   Some (BookingNotSuccessful (Agendou bookingResponse)))
                             else (bookingResponse, None)))))"

definition bookAppointment ::
  "env \<Rightarrow> Config \<Rightarrow> TimeSlot \<Rightarrow> (BookingResponse \<times> error option) go_result" where
  "bookAppointment e cfg slot =
     (case bookingRequest slot of
        Panicked \<Rightarrow> Panicked
      | Returned (Inl er) \<Rightarrow> Returned (zeroBookingResponse, Some er)
      | Returned (Inr request) \<Rightarrow> Returned (submitBooking e cfg request))"
text \<open>
  The same two functions together with what they put on the wire: the list of the calls of
  \<^verbatim>\<open>httpClient.Post\<close> made, each with its URL, its content type and its body, and the result.
\<close>

definition submitBooking_io ::
  "env \<Rightarrow> Config \<Rightarrow> BookingRequest \<Rightarrow>
   (string \<times> string \<times> string) list \<times> (BookingResponse \<times> error option)" where
  "submitBooking_io e cfg request =
     (case json_Marshal e request of
        Inl er \<Rightarrow> ([], (zeroBookingResponse, Some (FailedToMarshalRequest er)))
      | Inr requestBody \<Rightarrow>
         (let url = BaseURL cfg @ ''/vagas'';
              sent = [(url, ''application/json'', requestBody)]
          in case httpPost e url ''application/json'' requestBody of
               Inl er \<Rightarrow> (sent, (zeroBookingResponse, Some (HTTPRequestFailed er)))
             | Inr resp \<Rightarrow>
                (case Body resp of
                   Inl er \<Rightarrow> (sent, (zeroBookingResponse, Some (FailedToReadResponse er)))
                 | Inr responseBody \<Rightarrow>
                    if StatusCode resp \<noteq> 200
                    then (sent, (zeroBookingResponse,
                                 Some (HTTPError (StatusCode resp) responseBody)))
                    else (case json_Unmarshal_booking e responseBody of
                            Inl er \<Rightarrow>
                              (sent, (zeroBookingResponse, Some (FailedToParseResponse er)))
                          | Inr bookingResponse \<Rightarrow>
                             if Agendou bookingResponse \<noteq> 1
                             then (sent, (zeroBookingResponse,
                                          Some (BookingNotSuccessful (Agendou bookingResponse))))
                             else (sent, (bookingResponse, None))))))"

definition bookAppointment_io ::
  "env \<Rightarrow> Config \<Rightarrow> TimeSlot \<Rightarrow>
   ((string \<times> string \<times> string) list \<times> (BookingResponse \<times> error option)) go_result" where
  "bookAppointment_io e cfg slot =
     (case bookingRequest slot of
        Panicked \<Rightarrow> Panicked
      | Returned (Inl er) \<Rightarrow> Returned ([], (zeroBookingResponse, Some er))
      | Returned (Inr request) \<Rightarrow> Returned (submitBooking_io e cfg request))"


section \<open>Booking the selected slots concurrently\<close>

text \<open>
  \<^verbatim>\<open>bookAppointmentsConcurrently\<close> starts one goroutine per slot and waits for all of them.
  Its execution is a transition system whose steps are the statements of the goroutines and
  of the main goroutine, interleaved in any order. A goroutine is at one of these points:
  not yet started by its \<^verbatim>\<open>go\<close> statement; before the send \<^verbatim>\<open>semaphore <- struct{}{}\<close>; holding
  a place in the channel, before the call of \<^verbatim>\<open>bookAppointment\<close>; back from the call with the
  pair to store in \<^verbatim>\<open>results[index]\<close>; before the deferred receive \<^verbatim>\<open><-semaphore\<close>; before
  the deferred \<^verbatim>\<open>wg.Done()\<close>; finished. The flag of the last three says whether the goroutine
  is unwinding from a panic of the call: the deferred functions run all the same, and a
  goroutine that finishes by a panic takes the whole process down. Until the runtime does
  so the other goroutines run on: the deferred \<^verbatim>\<open>wg.Done()\<close> of the panicking goroutine has
  been called by then, so \<^verbatim>\<open>wg.Wait()\<close> can return before the process ends.
\<close>

datatype pc =
    NotStarted
  | AtAcquire
  | AtBook
  | AtWrite "BookingResponse \<times> error option"
  | AtRelease bool
  | AtDone bool
  | Finished bool

text \<open>
  The shared state: the \<^verbatim>\<open>results\<close> slice, the number of values in the buffered channel
  \<^verbatim>\<open>semaphore\<close> (capacity 5), the counter of the \<^verbatim>\<open>WaitGroup\<close>, the goroutines, the loop index
  of the main goroutine, whether \<^verbatim>\<open>wg.Wait()\<close> has returned, and whether the process has died.
\<close>

record bstate =
  results :: "BookingResult list"
  semaphore :: nat
  wg :: int
  tasks :: "pc list"
  loop_index :: nat
  returned :: bool
  crashed :: bool

definition zeroBookingResult :: BookingResult where
  "zeroBookingResult = \<lparr>response = zeroBookingResponse, err = None\<rparr>"

definition init :: "TimeSlot list \<Rightarrow> bstate" where
  "init slots =
     \<lparr>results = replicate (length slots) zeroBookingResult, semaphore = 0, wg = 0,
      tasks = replicate (length slots) NotStarted, loop_index = 0, returned = False,
      crashed = False\<rparr>"

inductive step :: "env \<Rightarrow> Config \<Rightarrow> TimeSlot list \<Rightarrow> bstate \<Rightarrow> bstate \<Rightarrow> bool"
  for e :: env and cfg :: Config and slots :: "TimeSlot list" where
  spawn: \<comment> \<open>one iteration of the loop: \<^verbatim>\<open>wg.Add(1)\<close> and the \<^verbatim>\<open>go\<close> statement\<close>
    "\<not> crashed s \<Longrightarrow> loop_index s < length slots \<Longrightarrow>
     step e cfg slots s
       (s\<lparr>wg := wg s + 1, tasks := (tasks s)[loop_index s := AtAcquire],
          loop_index := loop_index s + 1\<rparr>)"
| acquire: \<comment> \<open>the send on the channel, which blocks while it holds 5 values\<close>
    "\<not> crashed s \<Longrightarrow> i < length slots \<Longrightarrow> tasks s ! i = AtAcquire \<Longrightarrow> semaphore s < 5 \<Longrightarrow>
     step e cfg slots s (s\<lparr>semaphore := semaphore s + 1, tasks := (tasks s)[i := AtBook]\<rparr>)"
| book: \<comment> \<open>the call of \<^verbatim>\<open>bookAppointment\<close> returns\<close>
    "\<not> crashed s \<Longrightarrow> i < length slots \<Longrightarrow> tasks s ! i = AtBook \<Longrightarrow>
     bookAppointment e cfg (slots ! i) = Returned r \<Longrightarrow>
     step e cfg slots s (s\<lparr>tasks := (tasks s)[i := AtWrite r]\<rparr>)"
| book_panic: \<comment> \<open>the call panics: the goroutine unwinds through its deferred functions\<close>
    "\<not> crashed s \<Longrightarrow> i < length slots \<Longrightarrow> tasks s ! i = AtBook \<Longrightarrow>
     bookAppointment e cfg (slots ! i) = Panicked \<Longrightarrow>
     step e cfg slots s (s\<lparr>tasks := (tasks s)[i := AtRelease True]\<rparr>)"
| store: \<comment> \<open>the assignment to \<^verbatim>\<open>results[index]\<close>\<close>
    "\<not> crashed s \<Longrightarrow> i < length slots \<Longrightarrow> tasks s ! i = AtWrite r \<Longrightarrow>
     step e cfg slots s
       (s\<lparr>results := (results s)[i := \<lparr>response = fst r, err = snd r\<rparr>],
          tasks := (tasks s)[i := AtRelease False]\<rparr>)"
| release: \<comment> \<open>the deferred receive from the channel, which blocks while it is empty\<close>
    "\<not> crashed s \<Longrightarrow> i < length slots \<Longrightarrow> tasks s ! i = AtRelease p \<Longrightarrow> 0 < semaphore s \<Longrightarrow>
     step e cfg slots s (s\<lparr>semaphore := semaphore s - 1, tasks := (tasks s)[i := AtDone p]\<rparr>)"
| wg_done: \<comment> \<open>the deferred \<^verbatim>\<open>wg.Done()\<close>\<close>
    "\<not> crashed s \<Longrightarrow> i < length slots \<Longrightarrow> tasks s ! i = AtDone p \<Longrightarrow>
     step e cfg slots s (s\<lparr>wg := wg s - 1, tasks := (tasks s)[i := Finished p]\<rparr>)"
| crash: \<comment> \<open>a goroutine has finished by a panic that nothing recovers\<close>
    "\<not> crashed s \<Longrightarrow> i < length slots \<Longrightarrow> tasks s ! i = Finished True \<Longrightarrow>
     step e cfg slots s (s\<lparr>crashed := True\<rparr>)"
| wg_wait: \<comment> \<open>after the loop, \<^verbatim>\<open>wg.Wait()\<close> returns once the counter is zero\<close>
    "\<not> crashed s \<Longrightarrow> \<not> returned s \<Longrightarrow> loop_index s = length slots \<Longrightarrow> wg s = 0 \<Longrightarrow>
     step e cfg slots s (s\<lparr>returned := True\<rparr>)"

inductive reachable :: "env \<Rightarrow> Config \<Rightarrow> TimeSlot list \<Rightarrow> bstate \<Rightarrow> bool"
  for e :: env and cfg :: Config and slots :: "TimeSlot list" where
  start: "reachable e cfg slots (init slots)"
| after: "reachable e cfg slots s \<Longrightarrow> step e cfg slots s s' \<Longrightarrow> reachable e cfg slots s'"

text \<open>A goroutine holds a place in the channel from its send to its receive.\<close>

fun holdsGate :: "pc \<Rightarrow> bool" where
  "holdsGate AtBook = True"
| "holdsGate (AtWrite r) = True"
| "holdsGate (AtRelease p) = True"
| "holdsGate _ = False"

text \<open>The remote call is in flight while the goroutine is inside \<^verbatim>\<open>bookAppointment\<close>.\<close>

fun inCall :: "pc \<Rightarrow> bool" where
  "inCall AtBook = True"
| "inCall _ = False"

definition count :: "(pc \<Rightarrow> bool) \<Rightarrow> pc list \<Rightarrow> nat" where
  "count P ps = sum_list (map (\<lambda>p. if P p then 1 else 0) ps)"

text \<open>
  The value that the function hands to its caller. Every interleaving that runs to the
  \<^verbatim>\<open>return\<close> leaves the same slice (shown below): its entry at an index is what
  \<^verbatim>\<open>bookAppointment\<close> returned for the slot at that index, and where that call panicked the
  assignment to \<^verbatim>\<open>results[index]\<close> was never reached, so the entry is still the zero value that
  \<^verbatim>\<open>make\<close> put there, with a \<^verbatim>\<open>nil\<close> error. When some call panics the process is dying, and the
  caller gets this slice only if \<^verbatim>\<open>wg.Wait()\<close> returns before the runtime ends the process.
\<close>

definition bookAppointmentsConcurrently ::
  "env \<Rightarrow> Config \<Rightarrow> TimeSlot list \<Rightarrow> BookingResult list ending" where
  "bookAppointmentsConcurrently e cfg slots =
     (let results = map (\<lambda>slot. case bookAppointment e cfg slot of
                                  Returned r \<Rightarrow> \<lparr>response = fst r, err = snd r\<rparr>
                                | Panicked \<Rightarrow> zeroBookingResult) slots
      in if list_ex (\<lambda>slot. bookAppointment e cfg slot = Panicked) slots then Dying results
         else Completed results)"

section \<open>The run\<close>

text \<open>The loop of \<^verbatim>\<open>runScheduling\<close> over the booking results, with its two accumulators.\<close>

fun countLoop :: "BookingResult list \<Rightarrow> int \<Rightarrow> BookingResponse list \<Rightarrow> int \<times> BookingResponse list" where
  "countLoop [] successCount successfulBookings = (successCount, successfulBookings)"
| "countLoop (result # rest) successCount successfulBookings =
     (if err result \<noteq> None then countLoop rest successCount successfulBookings
      else countLoop rest (successCount + 1) (successfulBookings @ [response result]))"

definition bookingLink :: "BookingResponse \<Rightarrow> string" where
  "bookingLink booking =
     ''https://agendamento.itep.rn.gov.br/public/agendamento/'' @ CodigoVaga booking @ ''/agendar''"

text \<open>
  The end of \<^verbatim>\<open>runScheduling\<close>, from the loop over the booking results to the \<^verbatim>\<open>return\<close>: the
  error (\<^verbatim>\<open>nil\<close> is \<open>None\<close>) together with the lines printed on standard output, the booking
  links; the log goes to standard error and is left out.
\<close>

definition reportBookings :: "BookingResult list \<Rightarrow> error option \<times> string list" where
  "reportBookings bookingResults =
     (let (successCount, successfulBookings) = countLoop bookingResults 0 []
      in if successCount = 0 then (Some AllBookingAttemptsFailed, [])
         else (None, map bookingLink successfulBookings))"

text \<open>
  \<^verbatim>\<open>runScheduling\<close> returns its error together with the lines it has printed. Up to the
  bookings only the main goroutine runs; from there on the run ends as the concurrent
  bookings do.
\<close>

definition runScheduling :: "env \<Rightarrow> Config \<Rightarrow> (error option \<times> string list) ending" where
  "runScheduling e cfg =
     (case getAvailableOrders e cfg of
        Inl er \<Rightarrow> Completed (Some (FailedToGetOrders er), [])
      | Inr orders \<Rightarrow>
         (let targetOrders = filter (\<lambda>order. Nome (Order_Location order) = Location cfg) orders
          in if length targetOrders = 0 then Completed (Some NoOrdersAvailable, [])
             else (case collectAllTimeSlots e cfg targetOrders of
                     (allSlots, Some er) \<Rightarrow> Completed (Some (FailedToCollectTimeSlots er), [])
                   | (allSlots, None) \<Rightarrow>
                      if length allSlots = 0 then Completed (Some NoTimeSlotsAvailable, [])
                      else (let slotsToBook = selectUniqueSlots cfg allSlots
                            in if length slotsToBook = 0
                               then Completed (Some NoUniqueSlotsAvailable, [])
                               else (case bookAppointmentsConcurrently e cfg slotsToBook of
                                       Completed bookingResults \<Rightarrow>
                                         Completed (reportBookings bookingResults)
                                     | Dying bookingResults \<Rightarrow>
                                         Dying (reportBookings bookingResults))))))"

section \<open>Auxiliary definitions for the statements and proofs\<close>

text \<open>
  What the selection loop leaves of a list when there is no limit: the first slot of each
  time of day not yet used.
\<close>

fun dedupLoop :: "TimeSlot list \<Rightarrow> (string \<Rightarrow> bool) \<Rightarrow> TimeSlot list" where
  "dedupLoop [] used = []"
| "dedupLoop (x # xs) used =
     (if used (Time x) then dedupLoop xs used else x # dedupLoop xs (used(Time x := True)))"

text \<open>The \<open>w\<close> low decimal digits of a number, and the test for a decimal digit.\<close>

fun fixedDigits :: "nat \<Rightarrow> nat \<Rightarrow> string" where
  "fixedDigits 0 n = []"
| "fixedDigits (Suc w) n = fixedDigits w (n div 10) @ [digitChar (n mod 10)]"

definition isdig :: "char \<Rightarrow> bool" where
  "isdig c = (CHR ''0'' \<le> c \<and> c \<le> CHR ''9'')"

text \<open>
  The form \<^verbatim>\<open>YYYY-MM-DDT03:00:00.000Z\<close> of the \<^verbatim>\<open>data\<close> field: 24 bytes, digits at the
  positions of the date, the two dashes, and the fixed clock part.
\<close>

definition isDataForm :: "string \<Rightarrow> bool" where
  "isDataForm s =
     (length s = 24 \<and> list_all (\<lambda>i. isdig (s ! i)) [0, 1, 2, 3, 5, 6, 8, 9] \<and>
      s ! 4 = CHR ''-'' \<and> s ! 7 = CHR ''-'' \<and> drop 10 s = ''T03:00:00.000Z'')"

text \<open>
  The encoding of a request by \<^verbatim>\<open>json.Marshal\<close>. The bytes that \<^verbatim>\<open>encoding/json\<close> copies into a
  string unchanged are those of its table \<^verbatim>\<open>htmlSafeSet\<close>: the ASCII bytes from the space on,
  without the quotation mark, the backslash and the three characters \<^verbatim>\<open>&\<close>, \<^verbatim>\<open><\<close>, \<^verbatim>\<open>>\<close>. The
  object of a \<^verbatim>\<open>BookingRequest\<close> has the three keys of the struct tags in the order of the
  fields, without spaces. \<open>json_Marshal_plain\<close> is this much of the behaviour of the library
  for the encoder of the environment: a request whose strings consist of such bytes is
  encoded as the object that holds them as they are.
\<close>

definition quote :: char where
  "quote = CHR 0x22"

definition backslash :: char where
  "backslash = CHR 0x5C"

definition htmlSafe :: "char \<Rightarrow> bool" where
  "htmlSafe c =
     (32 \<le> (of_char c :: nat) \<and> (of_char c :: nat) < 128 \<and> c \<noteq> quote \<and> c \<noteq> backslash \<and>
      c \<noteq> CHR ''&'' \<and> c \<noteq> CHR ''<'' \<and> c \<noteq> CHR ''>'')"

definition json_object :: "int \<Rightarrow> string \<Rightarrow> string \<Rightarrow> string" where
  "json_object n d h =
     ''{'' @ [quote] @ ''id_ordem'' @ [quote] @ '':'' @ fmt_d n @ '','' @
     [quote] @ ''data'' @ [quote] @ '':'' @ [quote] @ d @ [quote] @ '','' @
     [quote] @ ''hora'' @ [quote] @ '':'' @ [quote] @ h @ [quote] @ ''}''"

definition json_Marshal_plain :: "env \<Rightarrow> bool" where
  "json_Marshal_plain e =
     (\<forall>request. list_all htmlSafe (Data request) \<and> list_all htmlSafe (Hora request) \<longrightarrow>
        json_Marshal e request =
          Inr (json_object (IDOrdem request) (Data request) (Hora request)))"

text \<open>
  The string encoder of \<^verbatim>\<open>encoding/json\<close> (\<^verbatim>\<open>appendString\<close> with \<^verbatim>\<open>escapeHTML\<close>, as
  \<^verbatim>\<open>json.Marshal\<close> calls it), byte by byte. \<open>decodeRune\<close> is \<^verbatim>\<open>utf8.DecodeRuneInString\<close> as far
  as the encoder uses it: whether the bytes at the head are a well-formed UTF-8 sequence,
  and its size; a sequence that is cut short or ill-formed is invalid, with size 1.
  An ASCII byte outside the table is escaped; an invalid byte becomes the backslash followed
  by \<^verbatim>\<open>ufffd\<close>, the escape of the replacement character U+FFFD; the separators U+2028 and
  U+2029 are escaped; every other sequence is copied.
\<close>

definition acceptRange :: "nat \<Rightarrow> (nat \<times> nat \<times> nat) option" where
  "acceptRange b =
     (if 0xC2 \<le> b \<and> b \<le> 0xDF then Some (2, 0x80, 0xBF)
      else if b = 0xE0 then Some (3, 0xA0, 0xBF)
      else if 0xE1 \<le> b \<and> b \<le> 0xEC then Some (3, 0x80, 0xBF)
      else if b = 0xED then Some (3, 0x80, 0x9F)
      else if 0xEE \<le> b \<and> b \<le> 0xEF then Some (3, 0x80, 0xBF)
      else if b = 0xF0 then Some (4, 0x90, 0xBF)
      else if 0xF1 \<le> b \<and> b \<le> 0xF3 then Some (4, 0x80, 0xBF)
      else if b = 0xF4 then Some (4, 0x80, 0x8F)
      else None)"

definition continuation :: "string \<Rightarrow> nat \<Rightarrow> bool" where
  "continuation s i = (0x80 \<le> (of_char (s ! i) :: nat) \<and> (of_char (s ! i) :: nat) \<le> 0xBF)"

definition decodeRune :: "string \<Rightarrow> bool \<times> nat" where
  "decodeRune s =
     (if s = [] then (False, 0)
      else if (of_char (hd s) :: nat) < 0x80 then (True, 1)
      else (case acceptRange (of_char (hd s)) of
              None \<Rightarrow> (False, 1)
            | Some (sz, lo, hi) \<Rightarrow>
               if length s < sz then (False, 1)
               else if (of_char (s ! 1) :: nat) < lo \<or> hi < (of_char (s ! 1) :: nat)
               then (False, 1)
               else if sz = 2 then (True, 2)
               else if \<not> continuation s 2 then (False, 1)
               else if sz = 3 then (True, 3)
               else if \<not> continuation s 3 then (False, 1)
               else (True, 4)))"

definition hex :: "nat \<Rightarrow> char" where
  "hex n = ''0123456789abcdef'' ! n"

fun appendString :: "string \<Rightarrow> string" where
  "appendString [] = []"
| "appendString (b # src) =
     (if (of_char b :: nat) < 0x80
      then (if htmlSafe b then b # appendString src
            else if b = backslash \<or> b = quote then [backslash, b] @ appendString src
            else if b = CHR 0x08 then [backslash, CHR ''b''] @ appendString src
            else if b = CHR 0x0C then [backslash, CHR ''f''] @ appendString src
            else if b = CHR 0x0A then [backslash, CHR ''n''] @ appendString src
            else if b = CHR 0x0D then [backslash, CHR ''r''] @ appendString src
            else if b = CHR 0x09 then [backslash, CHR ''t''] @ appendString src
            else [backslash, CHR ''u'', CHR ''0'', CHR ''0'', hex (of_char b div 16),
                  hex (of_char b mod 16)] @ appendString src)
      else (case decodeRune (b # src) of
              (valid, sz) \<Rightarrow>
                if \<not> valid then [backslash] @ ''ufffd'' @ appendString src
                else if take 3 (b # src) = [CHR 0xE2, CHR 0x80, CHR 0xA8]
                then [backslash] @ ''u2028'' @ appendString (drop 2 src)
                else if take 3 (b # src) = [CHR 0xE2, CHR 0x80, CHR 0xA9]
                then [backslash] @ ''u2029'' @ appendString (drop 2 src)
                else take sz (b # src) @ appendString (drop (sz - 1) src)))"

definition encoding_json_Marshal :: "BookingRequest \<Rightarrow> error + string" where
  "encoding_json_Marshal request =
     Inr (json_object (IDOrdem request) (appendString (Data request))
            (appendString (Hora request)))"

text \<open>
  What one iteration of the loop of \<^verbatim>\<open>collectAllTimeSlots\<close> appends to \<^verbatim>\<open>allSlots\<close>: nothing
  when a lookup fails or the target date is not offered, else one slot per time string.
\<close>

definition orderSlots :: "env \<Rightarrow> Config \<Rightarrow> string \<Rightarrow> Order \<Rightarrow> TimeSlot list" where
  "orderSlots e cfg targetDateStr order =
     (case getAvailableDates e cfg (ID order) of
        Inl er \<Rightarrow> []
      | Inr dates \<Rightarrow>
         if \<not> dateFound targetDateStr dates then []
         else (case getAvailableTimes e cfg (ID order) targetDateStr of
                 Inl er \<Rightarrow> []
               | Inr ts \<Rightarrow> map (\<lambda>timeStr. \<lparr>OrderID = ID order, Date = targetDateStr,
                                             Time = timeStr\<rparr>) ts))"

text \<open>
  What the documentation of \<^verbatim>\<open>sort.Slice\<close> promises for the comparison of the program: the
  slice is permuted in place, and afterwards no element is less than an earlier one. The
  documentation adds that the sort is not guaranteed to be stable; \<open>sort_Slice_stable\<close> says
  that this sort keeps slots of equal time in their order.
\<close>

definition sort_Slice_contract :: "env \<Rightarrow> bool" where
  "sort_Slice_contract e =
     (\<forall>xs. mset (sort_Slice e (\<lambda>a b. Time a < Time b) xs) = mset xs \<and>
           sorted_wrt (\<lambda>a b. \<not> Time b < Time a) (sort_Slice e (\<lambda>a b. Time a < Time b) xs))"

definition sort_Slice_stable :: "env \<Rightarrow> bool" where
  "sort_Slice_stable e =
     (\<forall>xs t. filter (\<lambda>x. Time x = t) (sort_Slice e (\<lambda>a b. Time a < Time b) xs) =
             filter (\<lambda>x. Time x = t) xs)"

text \<open>
  The first order, in input order, that offers a given time of day, and the statement that
  every selected slot belongs to the first order offering its time.
\<close>

definition first_offering :: "env \<Rightarrow> Config \<Rightarrow> Order list \<Rightarrow> string \<Rightarrow> Order option" where
  "first_offering e cfg orders t =
     find (\<lambda>order. list_ex (\<lambda>z. Time z = t) (orderSlots e cfg (targetDate e) order)) orders"

definition ties_to_first_order :: "env \<Rightarrow> Config \<Rightarrow> Order list \<Rightarrow> bool" where
  "ties_to_first_order e cfg orders =
     list_all (\<lambda>s. map_option ID (first_offering e cfg orders (Time s)) = Some (OrderID s))
       (selectUniqueSlots cfg (fst (collectAllTimeSlots e cfg orders)))"

text \<open>
  For the invariants of the transition system: a goroutine counted by the \<^verbatim>\<open>WaitGroup\<close>; the
  outcome of a goroutine that is past its call (\<open>True\<close> for a panic); the number of steps a
  goroutine still has to take, and the same for the whole state.
\<close>

fun active :: "pc \<Rightarrow> bool" where
  "active NotStarted = False"
| "active (Finished p) = False"
| "active _ = True"

fun settled :: "pc \<Rightarrow> bool option" where
  "settled (AtRelease p) = Some p"
| "settled (AtDone p) = Some p"
| "settled (Finished p) = Some p"
| "settled _ = None"



text \<open>
  The invariants: the two lists keep the length of \<^verbatim>\<open>slots\<close> and exactly the goroutines below
  the loop index have been started; the channel holds one value per goroutine between its
  send and its receive, at most 5; the counter of the \<^verbatim>\<open>WaitGroup\<close> is the number of started,
  unfinished goroutines; what a goroutine carries or has stored at its index is what
  \<^verbatim>\<open>bookAppointment\<close> returned for the slot at that index, a goroutine unwinds from a panic
  only when that call panics, and an entry that no goroutine has stored is still the zero
  value; and once \<^verbatim>\<open>wg.Wait()\<close> has returned, every goroutine has finished.
\<close>

definition inv_shape :: "TimeSlot list \<Rightarrow> bstate \<Rightarrow> bool" where
  "inv_shape slots s =
     (length (tasks s) = length slots \<and> length (results s) = length slots \<and>
      loop_index s \<le> length slots \<and>
      (\<forall>i < length slots. (tasks s ! i = NotStarted) = (loop_index s \<le> i)))"

definition inv_gate :: "bstate \<Rightarrow> bool" where
  "inv_gate s = (semaphore s = count holdsGate (tasks s) \<and> semaphore s \<le> 5)"

definition inv_wg :: "bstate \<Rightarrow> bool" where
  "inv_wg s = (wg s = int (count active (tasks s)))"

definition inv_results :: "env \<Rightarrow> Config \<Rightarrow> TimeSlot list \<Rightarrow> bstate \<Rightarrow> bool" where
  "inv_results e cfg slots s =
     (\<forall>i < length slots.
        (\<forall>r. tasks s ! i = AtWrite r \<longrightarrow> bookAppointment e cfg (slots ! i) = Returned r) \<and>
        (settled (tasks s ! i) = Some False \<longrightarrow>
           bookAppointment e cfg (slots ! i) =
             Returned (response (results s ! i), err (results s ! i))) \<and>
        (settled (tasks s ! i) = Some True \<longrightarrow> bookAppointment e cfg (slots ! i) = Panicked) \<and>
        (settled (tasks s ! i) \<noteq> Some False \<longrightarrow> results s ! i = zeroBookingResult))"

definition inv_returned :: "TimeSlot list \<Rightarrow> bstate \<Rightarrow> bool" where
  "inv_returned slots s =
     (returned s \<longrightarrow> (\<forall>i < length slots. \<exists>p. tasks s ! i = Finished p))"

text \<open>
  A schedule is a list of events; \<open>fire\<close> takes the step that an event names when it is
  enabled, and \<open>run\<close> follows a schedule from a state.
\<close>

datatype event = Spawn | Acquire nat | Book nat | Store nat | Release nat | Done nat | Crash nat | Wait

fun fire :: "env \<Rightarrow> Config \<Rightarrow> TimeSlot list \<Rightarrow> event \<Rightarrow> bstate \<Rightarrow> bstate option" where
  "fire e cfg slots Spawn s =
     (if \<not> crashed s \<and> loop_index s < length slots
      then Some (s\<lparr>wg := wg s + 1, tasks := (tasks s)[loop_index s := AtAcquire],
                   loop_index := loop_index s + 1\<rparr>)
      else None)"
| "fire e cfg slots (Acquire i) s =
     (if \<not> crashed s \<and> i < length slots \<and> tasks s ! i = AtAcquire \<and> semaphore s < 5
      then Some (s\<lparr>semaphore := semaphore s + 1, tasks := (tasks s)[i := AtBook]\<rparr>)
      else None)"
| "fire e cfg slots (Book i) s =
     (if \<not> crashed s \<and> i < length slots \<and> tasks s ! i = AtBook
      then (case bookAppointment e cfg (slots ! i) of
              Returned r \<Rightarrow> Some (s\<lparr>tasks := (tasks s)[i := AtWrite r]\<rparr>)
            | Panicked \<Rightarrow> Some (s\<lparr>tasks := (tasks s)[i := AtRelease True]\<rparr>))
      else None)"
| "fire e cfg slots (Store i) s =
     (if \<not> crashed s \<and> i < length slots
      then (case tasks s ! i of
              AtWrite r \<Rightarrow>
                Some (s\<lparr>results := (results s)[i := \<lparr>response = fst r, err = snd r\<rparr>],
                        tasks := (tasks s)[i := AtRelease False]\<rparr>)
            | _ \<Rightarrow> None)
      else None)"
| "fire e cfg slots (Release i) s =
     (if \<not> crashed s \<and> i < length slots \<and> 0 < semaphore s
      then (case tasks s ! i of
              AtRelease p \<Rightarrow>
                Some (s\<lparr>semaphore := semaphore s - 1, tasks := (tasks s)[i := AtDone p]\<rparr>)
            | _ \<Rightarrow> None)
      else None)"
| "fire e cfg slots (Done i) s =
     (if \<not> crashed s \<and> i < length slots
      then (case tasks s ! i of
              AtDone p \<Rightarrow> Some (s\<lparr>wg := wg s - 1, tasks := (tasks s)[i := Finished p]\<rparr>)
            | _ \<Rightarrow> None)
      else None)"
| "fire e cfg slots (Crash i) s =
     (if \<not> crashed s \<and> i < length slots \<and> tasks s ! i = Finished True
      then Some (s\<lparr>crashed := True\<rparr>) else None)"
| "fire e cfg slots Wait s =
     (if \<not> crashed s \<and> \<not> returned s \<and> loop_index s = length slots \<and> wg s = 0
      then Some (s\<lparr>returned := True\<rparr>) else None)"

fun run :: "env \<Rightarrow> Config \<Rightarrow> TimeSlot list \<Rightarrow> event list \<Rightarrow> bstate \<Rightarrow> bstate option" where
  "run e cfg slots [] s = Some s"
| "run e cfg slots (ev # evs) s =
     (case fire e cfg slots ev s of None \<Rightarrow> None | Some s' \<Rightarrow> run e cfg slots evs s')"

















section \<open>A concrete remote service and concrete runs\<close>

text \<open>
  A configuration and a remote service to run the program on: two orders, one of them at the
  configured location with three times on the target date, two of them equal; a booking of
  09:00 is accepted, one of 10:00 is answered with \<^verbatim>\<open>agendou\<close> 0, anything else with status 500.
  Bodies are written without quotation marks, and the codec is a table for these bodies.
  The sort is a stable one.
\<close>

definition demo_cfg :: Config where
  "demo_cfg = \<lparr>Location = ''NATAL'', AppointmentCount = 2, ScheduleTime = ''18:00'',
                BaseURL = ''http://itep/api''\<rparr>"

definition demo_orders :: "Order list" where
  "demo_orders =
     [\<lparr>ID = 1, DataInicio = ''2024-06-10'', DataFim = ''2024-06-10'', VagasCount = ''3'',
       Order_Location = \<lparr>Location_ID = 7, Nome = ''NATAL''\<rparr>\<rparr>,
      \<lparr>ID = 2, DataInicio = ''2024-06-10'', DataFim = ''2024-06-10'', VagasCount = ''3'',
       Order_Location = \<lparr>Location_ID = 8, Nome = ''OTHER''\<rparr>\<rparr>]"

definition unreachable_order :: Order where
  "unreachable_order =
     \<lparr>ID = 3, DataInicio = ''2024-06-10'', DataFim = ''2024-06-10'', VagasCount = ''3'',
      Order_Location = \<lparr>Location_ID = 7, Nome = ''NATAL''\<rparr>\<rparr>"

fun splitOn :: "char \<Rightarrow> string \<Rightarrow> string list" where
  "splitOn c [] = [[]]"
| "splitOn c (x # xs) =
     (if x = c then [] # splitOn c xs
      else (case splitOn c xs of [] \<Rightarrow> [[x]] | y # ys \<Rightarrow> (x # y) # ys))"

definition demo_strings :: "string \<Rightarrow> error + string list" where
  "demo_strings body =
     (if body = ''[]'' then Inr []
      else if body \<noteq> [] \<and> hd body = CHR ''['' \<and> last body = CHR '']''
      then Inr (splitOn CHR '','' (butlast (tl body)))
      else Inl (External ''invalid character''))"

definition demo_decode_orders :: "string \<Rightarrow> error + Order list" where
  "demo_decode_orders body =
     (if body = ''[{id:1,nome:NATAL},{id:2,nome:OTHER}]'' then Inr demo_orders
      else Inl (External ''invalid character''))"

definition demo_decode_booking :: "string \<Rightarrow> error + BookingResponse" where
  "demo_decode_booking body =
     (if body = ''{codigo_vaga:A1,agendou:1}'' then Inr \<lparr>CodigoVaga = ''A1'', Agendou = 1\<rparr>
      else if body = ''{codigo_vaga:,agendou:0}'' then Inr \<lparr>CodigoVaga = [], Agendou = 0\<rparr>
      else Inl (External ''invalid character''))"

definition demo_marshal :: "BookingRequest \<Rightarrow> error + string" where
  "demo_marshal r =
     Inr (''{id_ordem:'' @ fmt_d (IDOrdem r) @ '',data:'' @ Data r @ '',hora:'' @ Hora r @ ''}'')"

definition demo_escape :: "string \<Rightarrow> string" where
  "demo_escape s =
     concat (map (\<lambda>c. if c = CHR '' '' then ''+'' else if c = CHR '','' then ''%2C''
                       else if c = CHR '':'' then ''%3A'' else [c]) s)"

definition demo_get :: "string \<Rightarrow> error + http_Response" where
  "demo_get url =
     (if url = ''http://itep/api/ordens/public?data_inicial=2024-06-10&data_final=2024-06-10''
      then Inr \<lparr>StatusCode = 200, Body = Inr ''[{id:1,nome:NATAL},{id:2,nome:OTHER}]''\<rparr>
      else if url = ''http://itep/api/ordens/public/datas?ordem=1''
      then Inr \<lparr>StatusCode = 200, Body = Inr ''[2024-06-10]''\<rparr>
      else if url = ''http://itep/api/vagas/horas?ordem=1&data=Mon%2C+10+Jun+2024+03%3A00%3A00+GMT''
      then Inr \<lparr>StatusCode = 200, Body = Inr ''[09:00:00,09:00:00,10:00:00]''\<rparr>
      else Inl (External ''connection refused''))"

definition demo_post :: "string \<Rightarrow> string \<Rightarrow> string \<Rightarrow> error + http_Response" where
  "demo_post url contentType body =
     (if url \<noteq> ''http://itep/api/vagas'' then Inl (External ''connection refused'')
      else if body = ''{id_ordem:1,data:2024-06-10T03:00:00.000Z,hora:09:00}''
      then Inr \<lparr>StatusCode = 200, Body = Inr ''{codigo_vaga:A1,agendou:1}''\<rparr>
      else if body = ''{id_ordem:1,data:2024-06-10T03:00:00.000Z,hora:10:00}''
      then Inr \<lparr>StatusCode = 200, Body = Inr ''{codigo_vaga:,agendou:0}''\<rparr>
      else Inr \<lparr>StatusCode = 500, Body = Inr ''Internal Server Error''\<rparr>)"

definition demo_env :: env where
  "demo_env =
     \<lparr>httpGet = demo_get, httpPost = demo_post, json_Unmarshal_orders = demo_decode_orders,
      json_Unmarshal_strings = demo_strings, json_Unmarshal_booking = demo_decode_booking,
      json_Marshal = demo_marshal, sort_Slice = (\<lambda>less. sort_key Time),
      url_QueryEscape = demo_escape, time_Format_day = (\<lambda>t. ''Mon, 10 Jun 2024''),
      targetDate = ''2024-06-10''\<rparr>"

text \<open>
  A second service: two orders at the configured location that both offer 10:00:00, the
  first order offering nothing else, thirteen slots in all; its sort is a parameter.
  \<open>reversing_sort\<close> sorts by time and puts slots of equal time in reverse order, which the
  contract of \<^verbatim>\<open>sort.Slice\<close> allows. \<open>down_env\<close> answers no GET, \<open>refusing_env\<close> no POST.
\<close>

definition tie_orders :: "Order list" where
  "tie_orders =
     [\<lparr>ID = 1, DataInicio = ''2024-06-10'', DataFim = ''2024-06-10'', VagasCount = ''1'',
       Order_Location = \<lparr>Location_ID = 7, Nome = ''NATAL''\<rparr>\<rparr>,
      \<lparr>ID = 2, DataInicio = ''2024-06-10'', DataFim = ''2024-06-10'', VagasCount = ''12'',
       Order_Location = \<lparr>Location_ID = 7, Nome = ''NATAL''\<rparr>\<rparr>]"

definition tie_get :: "string \<Rightarrow> error + http_Response" where
  "tie_get url =
     (if url = ''http://itep/api/ordens/public/datas?ordem=1''
      then Inr \<lparr>StatusCode = 200, Body = Inr ''[2024-06-10]''\<rparr>
      else if url = ''http://itep/api/ordens/public/datas?ordem=2''
      then Inr \<lparr>StatusCode = 200, Body = Inr ''[2024-06-10]''\<rparr>
      else if url = ''http://itep/api/vagas/horas?ordem=1&data=Mon%2C+10+Jun+2024+03%3A00%3A00+GMT''
      then Inr \<lparr>StatusCode = 200, Body = Inr ''[10:00:00]''\<rparr>
      else if url = ''http://itep/api/vagas/horas?ordem=2&data=Mon%2C+10+Jun+2024+03%3A00%3A00+GMT''
      then Inr \<lparr>StatusCode = 200,
                 Body = Inr (''[10:00:00,08:00:00,08:00:00,08:00:00,08:00:00,09:00:00,'' @
                             ''11:00:00,11:00:00,11:00:00,11:00:00,11:00:00,11:00:00]'')\<rparr>
      else Inl (External ''connection refused''))"

definition tie_env :: "(TimeSlot list \<Rightarrow> TimeSlot list) \<Rightarrow> env" where
  "tie_env srt = demo_env\<lparr>httpGet := tie_get, sort_Slice := (\<lambda>less. srt)\<rparr>"

definition reversing_sort :: "TimeSlot list \<Rightarrow> TimeSlot list" where
  "reversing_sort xs = sort_key Time (rev xs)"

definition tie_cfg :: Config where
  "tie_cfg = demo_cfg\<lparr>AppointmentCount := 3\<rparr>"



text \<open>
  Three slots, the last with a time of four bytes, and two schedules: one in which the second
  goroutine overtakes the first, and one that starts six goroutines and lets five of them
  pass the gate.
\<close>

definition slot09 :: TimeSlot where
  "slot09 = \<lparr>OrderID = 1, Date = ''2024-06-10'', Time = ''09:00:00''\<rparr>"

definition slot10 :: TimeSlot where
  "slot10 = \<lparr>OrderID = 1, Date = ''2024-06-10'', Time = ''10:00:00''\<rparr>"

definition short_slot :: TimeSlot where
  "short_slot = \<lparr>OrderID = 1, Date = ''2024-06-10'', Time = ''9:00''\<rparr>"


definition six_slots :: "TimeSlot list" where
  "six_slots = [slot09, slot10, slot09, slot10, slot09, slot10]"

definition five_admitted :: "event list" where
  "five_admitted =
     [Spawn, Spawn, Spawn, Spawn, Spawn, Spawn, Acquire 5, Acquire 3, Acquire 0, Acquire 1, Acquire 4]"





text \<open>
  A fourth service, with the encoder of \<^verbatim>\<open>encoding/json\<close>: it accepts the booking of 09:00 and
  answers anything else with status 500. And a slot whose time is the text
  \<^verbatim>\<open>10h\<close>, space, \<^verbatim>\<open>a\<close> with grave accent, \<^verbatim>\<open>s 11h\<close> in UTF-8: its fifth and sixth bytes are the
  two bytes C3 A0 of the accented letter.
\<close>

definition json_post :: "string \<Rightarrow> string \<Rightarrow> string \<Rightarrow> error + http_Response" where
  "json_post url contentType body =
     (if url \<noteq> ''http://itep/api/vagas'' then Inl (External ''connection refused'')
      else if body = json_object 1 ''2024-06-10T03:00:00.000Z'' ''09:00''
      then Inr \<lparr>StatusCode = 200, Body = Inr ''{codigo_vaga:A1,agendou:1}''\<rparr>
      else Inr \<lparr>StatusCode = 500, Body = Inr ''Internal Server Error''\<rparr>)"

definition json_env :: env where
  "json_env = demo_env\<lparr>httpPost := json_post, json_Marshal := encoding_json_Marshal\<rparr>"

definition cut_slot :: TimeSlot where
  "cut_slot =
     \<lparr>OrderID = 1, Date = ''2024-06-10'', Time = ''10h '' @ [CHR 0xC3, CHR 0xA0] @ ''s 11h''\<rparr>"

section \<open>Properties of the selection\<close>

lemma selectLoop_dedup:
  "selectLoop k xs used sel = sel @ take (nat k - length sel) (dedupLoop xs used)"
proof (induction xs arbitrary: used sel)
  case Nil
  then show ?case by simp
next
  case (Cons x xs)
  show ?case
  proof (cases "\<not> used (Time x) \<and> int (length sel) < k")
    case True
    then have "nat k - length sel = Suc (nat k - Suc (length sel))" by linarith
    with True Cons [of "used(Time x := True)" "sel @ [x]"] show ?thesis
      by (simp del: fun_upd_apply)
  next
    case False
    then show ?thesis using Cons [of used sel] by (auto simp: not_less)
  qed
qed

lemma dedupLoop_subseq: "subseq (dedupLoop xs used) xs"
  by (induction xs arbitrary: used) auto

lemma dedupLoop_unused: "s \<in> set (dedupLoop xs used) \<Longrightarrow> \<not> used (Time s)"
proof (induction xs arbitrary: used)
  case Nil
  then show ?case by simp
next
  case (Cons x xs)
  show ?case
  proof (cases "used (Time x)")
    case True
    with Cons show ?thesis by simp
  next
    case False
    with Cons.prems have "s = x \<or> s \<in> set (dedupLoop xs (used(Time x := True)))" by simp
    then show ?thesis
    proof
      assume "s = x" with False show ?thesis by simp
    next
      assume "s \<in> set (dedupLoop xs (used(Time x := True)))"
      from Cons.IH [OF this] show ?thesis by (simp split: if_splits)
    qed
  qed
qed

lemma dedupLoop_distinct: "distinct (map Time (dedupLoop xs used))"
proof (induction xs arbitrary: used)
  case Nil
  then show ?case by simp
next
  case (Cons x xs)
  have "Time x \<notin> Time ` set (dedupLoop xs (used(Time x := True)))"
  proof
    assume "Time x \<in> Time ` set (dedupLoop xs (used(Time x := True)))"
    then obtain s where s: "s \<in> set (dedupLoop xs (used(Time x := True)))" "Time s = Time x"
      by auto
    from dedupLoop_unused [OF s(1)] s(2) show False by simp
  qed
  with Cons show ?case by (simp del: fun_upd_apply)
qed

lemma selectUniqueSlots_eq:
  "selectUniqueSlots cfg xs = take (nat (AppointmentCount cfg)) (dedupLoop xs (\<lambda>_. False))"
  by (simp add: selectUniqueSlots_def selectLoop_dedup)

lemma subseq_take: "subseq (take n xs) xs"
  by (metis append_take_drop_id list_emb_append_mono subseq_order.order_refl append_Nil2 list_emb_Nil)

text \<open>
  Claim C3. For every list of collected slots and every configured count, \<^verbatim>\<open>selectUniqueSlots\<close>
  returns at most that many slots (none when the count is not positive), no two returned
  slots have the same \<^verbatim>\<open>Time\<close>, and the returned slots are drawn from the input list, in its
  order.
\<close>

theorem selectUniqueSlots_bounded_distinct_subset:
  "length (selectUniqueSlots cfg allSlots) \<le> nat (AppointmentCount cfg) \<and>
   distinct (map Time (selectUniqueSlots cfg allSlots)) \<and>
   subseq (selectUniqueSlots cfg allSlots) allSlots \<and>
   set (selectUniqueSlots cfg allSlots) \<subseteq> set allSlots"
proof -
  let ?d = "dedupLoop allSlots (\<lambda>_. False)"
  let ?k = "nat (AppointmentCount cfg)"
  have sub: "subseq (take ?k ?d) allSlots"
    using subseq_take [of ?k ?d] dedupLoop_subseq [of allSlots "\<lambda>_. False"]
    by (rule subseq_order.order_trans)
  have dis: "distinct (map Time (take ?k ?d))"
    using dedupLoop_distinct [of allSlots "\<lambda>_. False"] by (simp add: take_map [symmetric] distinct_take)
  have "set (take ?k ?d) \<subseteq> set allSlots"
    using sub by (auto dest: list_emb_set)
  with sub dis show ?thesis by (simp add: selectUniqueSlots_eq)
qed

text \<open>
  The scenario of the specification: of the three collected slots, with count 2, the
  selection is the first 09:00:00 and the 10:00:00.
\<close>

theorem selectUniqueSlots_bounded_distinct_subset_witness:
  "selectUniqueSlots demo_cfg [slot09, slot09, slot10] = [slot09, slot10] \<and>
   length (selectUniqueSlots demo_cfg [slot09, slot09, slot10]) \<le> nat (AppointmentCount demo_cfg) \<and>
   distinct (map Time (selectUniqueSlots demo_cfg [slot09, slot09, slot10]))"
proof -
  have "selectUniqueSlots demo_cfg [slot09, slot09, slot10] = [slot09, slot10]" by code_simp
  with selectUniqueSlots_bounded_distinct_subset [of demo_cfg "[slot09, slot09, slot10]"]
  show ?thesis by simp
qed

section \<open>Properties of the collection and of one booking\<close>

text \<open>
  Claim C10. The error returned by \<^verbatim>\<open>collectAllTimeSlots\<close> is \<^verbatim>\<open>nil\<close> for every list of orders,
  and \<^verbatim>\<open>runScheduling\<close> never returns the error of its branch
  \<^verbatim>\<open>failed to collect time slots\<close>, whether or not a booking call panics.
\<close>

theorem collectAllTimeSlots_error_nil:
  "snd (collectAllTimeSlots e cfg orders) = None \<and>
   runScheduling e cfg \<noteq> Completed (Some (FailedToCollectTimeSlots er), out) \<and>
   runScheduling e cfg \<noteq> Dying (Some (FailedToCollectTimeSlots er), out)"
  by (auto simp: collectAllTimeSlots_def runScheduling_def reportBookings_def Let_def
      split: sum.splits ending.splits prod.splits option.splits if_splits)

text \<open>
  On the concrete service, with an order whose lookup fails, the error is \<^verbatim>\<open>nil\<close> all the same.
\<close>

theorem collectAllTimeSlots_error_nil_witness:
  "snd (collectAllTimeSlots demo_env demo_cfg [unreachable_order, hd demo_orders]) = None"
  using collectAllTimeSlots_error_nil [of demo_env demo_cfg "[unreachable_order, hd demo_orders]"]
  by simp

lemma countLoop_failure:
  "err result \<noteq> None \<Longrightarrow> countLoop (result # rest) n acc = countLoop rest n acc"
  by simp

text \<open>
  Claim C1. When the request for a slot has been built and marshalled, the POST has answered
  with status 200, and the body decodes to a response whose \<^verbatim>\<open>agendou\<close> is not 1, then
  \<^verbatim>\<open>bookAppointment\<close> returns the zero response with the error
  \<^verbatim>\<open>booking was not successful\<close>, and the loop of \<^verbatim>\<open>runScheduling\<close> that counts the successes
  passes over this result without counting it.
\<close>

theorem bookAppointment_agendou_not_1:
  assumes "bookingRequest slot = Returned (Inr request)"
    and "json_Marshal e request = Inr requestBody"
    and "httpPost e (BaseURL cfg @ ''/vagas'') ''application/json'' requestBody = Inr resp"
    and "StatusCode resp = 200"
    and "Body resp = Inr responseBody"
    and "json_Unmarshal_booking e responseBody = Inr bookingResponse"
    and "Agendou bookingResponse \<noteq> 1"
  shows "bookAppointment e cfg slot =
           Returned (zeroBookingResponse, Some (BookingNotSuccessful (Agendou bookingResponse))) \<and>
         countLoop (\<lparr>response = zeroBookingResponse,
                      err = Some (BookingNotSuccessful (Agendou bookingResponse))\<rparr> # rest) n acc =
           countLoop rest n acc"
  using assms by (simp add: bookAppointment_def submitBooking_def)

theorem bookAppointment_agendou_not_1_witness:
  "bookingRequest slot10 =
     Returned (Inr \<lparr>IDOrdem = 1, Data = ''2024-06-10T03:00:00.000Z'', Hora = ''10:00''\<rparr>) \<and>
   httpPost demo_env (BaseURL demo_cfg @ ''/vagas'') ''application/json''
     ''{id_ordem:1,data:2024-06-10T03:00:00.000Z,hora:10:00}'' =
     Inr \<lparr>StatusCode = 200, Body = Inr ''{codigo_vaga:,agendou:0}''\<rparr> \<and>
   json_Unmarshal_booking demo_env ''{codigo_vaga:,agendou:0}'' =
     Inr \<lparr>CodigoVaga = [], Agendou = 0\<rparr> \<and>
   bookAppointment demo_env demo_cfg slot10 =
     Returned (zeroBookingResponse, Some (BookingNotSuccessful 0))"
proof -
  let ?req = "\<lparr>IDOrdem = 1, Data = ''2024-06-10T03:00:00.000Z'', Hora = ''10:00''\<rparr>"
  let ?body = "''{id_ordem:1,data:2024-06-10T03:00:00.000Z,hora:10:00}''"
  let ?resp = "\<lparr>StatusCode = 200, Body = Inr ''{codigo_vaga:,agendou:0}''\<rparr>"
  let ?br = "\<lparr>CodigoVaga = [], Agendou = 0\<rparr>"
  have h1: "bookingRequest slot10 = Returned (Inr ?req)" by code_simp
  have h2: "json_Marshal demo_env ?req = Inr ?body" by code_simp
  have h3: "httpPost demo_env (BaseURL demo_cfg @ ''/vagas'') ''application/json'' ?body = Inr ?resp"
    by code_simp
  have h4: "StatusCode ?resp = 200" by simp
  have h5: "Body ?resp = Inr ''{codigo_vaga:,agendou:0}''" by simp
  have h6: "json_Unmarshal_booking demo_env ''{codigo_vaga:,agendou:0}'' = Inr ?br" by code_simp
  have h7: "Agendou ?br \<noteq> 1" by simp
  from bookAppointment_agendou_not_1 [OF h1 h2 h3 h4 h5 h6 h7] h1 h3 h6
  show ?thesis by simp
qed

lemma bookingRequest_Panicked:
  "bookingRequest slot = Panicked \<longleftrightarrow> (\<exists>d. time_Parse (Date slot) = Inr d) \<and> length (Time slot) < 5"
  by (auto simp: bookingRequest_def slice_to_def Let_def split: sum.splits)

text \<open>
  Claim C9. The slice expression \<^verbatim>\<open>slot.Time[:5]\<close> panics for a time shorter than 5 bytes;
  \<^verbatim>\<open>bookAppointment\<close> panics exactly when it reaches that expression (the date has parsed)
  with such a time; and for a time of at least 5 bytes it returns.
\<close>

theorem bookAppointment_panics_iff:
  "(length (Time slot) < 5 \<longrightarrow> slice_to (Time slot) 5 = Panicked) \<and>
   (bookAppointment e cfg slot = Panicked \<longleftrightarrow>
      (\<exists>d. time_Parse (Date slot) = Inr d) \<and> length (Time slot) < 5) \<and>
   (5 \<le> length (Time slot) \<longrightarrow> (\<exists>r. bookAppointment e cfg slot = Returned r))"
proof -
  have "bookAppointment e cfg slot = Panicked \<longleftrightarrow> bookingRequest slot = Panicked"
    by (simp add: bookAppointment_def split: go_result.splits sum.splits)
  then show ?thesis
    by (cases "bookAppointment e cfg slot") (auto simp: bookingRequest_Panicked slice_to_def)
qed

theorem bookAppointment_panics_iff_witness:
  "length (Time short_slot) < 5 \<and> bookAppointment demo_env demo_cfg short_slot = Panicked \<and>
   5 \<le> length (Time slot09) \<and> (\<exists>r. bookAppointment demo_env demo_cfg slot09 = Returned r)"
proof -
  have s: "length (Time short_slot) < 5" "time_Parse (Date short_slot) = Inr (time_Date 2024 6 10 0 0 0 0)"
    by code_simp+
  have l: "5 \<le> length (Time slot09)" by code_simp
  from bookAppointment_panics_iff [of short_slot demo_env demo_cfg] s
  have "bookAppointment demo_env demo_cfg short_slot = Panicked" by blast
  moreover from bookAppointment_panics_iff [of slot09 demo_env demo_cfg] l
  have "\<exists>r. bookAppointment demo_env demo_cfg slot09 = Returned r" by blast
  ultimately show ?thesis using s l by blast
qed

section \<open>Dates on the wire\<close>

lemma digitChar_0: "digitChar 0 = CHR ''0''"
  unfolding digitChar_def by (simp only: add_0_right char_of_char)

lemma fixedDigits_0: "fixedDigits w 0 = replicate w CHR ''0''"
  by (induction w) (simp_all add: digitChar_0 replicate_append_same)

lemma length_decimal_pos: "0 < length (decimal n)"
  by (subst decimal.simps) simp

lemma decimal_pad:
  "n < 10 ^ Suc w \<Longrightarrow>
   replicate (Suc w - length (decimal n)) CHR ''0'' @ decimal n = fixedDigits (Suc w) n"
proof (induction w arbitrary: n)
  case 0
  then show ?case by (subst (1 2) decimal.simps) simp
next
  case (Suc w)
  show ?case
  proof (cases "n < 10")
    case True
    then show ?thesis
      by (subst (1 2) decimal.simps) (simp add: fixedDigits_0)
  next
    case False
    from Suc.prems have "n div 10 < 10 ^ Suc w" by simp
    from Suc.IH [OF this] False show ?thesis
      by (subst (1 2) decimal.simps) (simp add: Suc_diff_le)
  qed
qed

lemma appendInt_fixed:
  "0 \<le> x \<Longrightarrow> nat x < 10 ^ Suc w \<Longrightarrow> appendInt x (Suc w) = fixedDigits (Suc w) (nat x)"
  using decimal_pad [of "nat x" w] by (simp add: appendInt_def Let_def)

lemma digit_roundtrip:
  assumes "CHR ''0'' \<le> c" "c \<le> CHR ''9''"
  shows "0 \<le> digitVal c \<and> digitVal c \<le> 9 \<and> digitChar (nat (digitVal c)) = c"
proof -
  from assms have b: "48 \<le> (of_char c :: nat)" "(of_char c :: nat) \<le> 57"
    by (simp_all add: less_eq_char_def)
  then have "(48::nat) + nat (int (of_char c) - 48) = of_char c" by simp
  moreover have "(of_char CHR ''0'' :: nat) = 48" by simp
  ultimately have "digitChar (nat (digitVal c)) = char_of (of_char c :: nat)"
    by (simp add: digitVal_def digitChar_def)
  with b show ?thesis by (simp add: digitVal_def)
qed

lemma isdig_not_sign: "isdig c \<Longrightarrow> c \<noteq> CHR ''-'' \<and> c \<noteq> CHR ''+''"
  by (auto simp: isdig_def less_eq_char_def)

lemma leadingInt_step:
  "leadingInt (c # cs) x = (if isdig c then leadingInt cs (x * 10 + digitVal c) else (x, c # cs))"
  by (auto simp: isdig_def not_le not_less)

lemma atoi4:
  assumes "atoi [a, b, c, d] = Some y" "isdig a"
  shows "isdig b \<and> isdig c \<and> isdig d \<and>
         y = ((digitVal a * 10 + digitVal b) * 10 + digitVal c) * 10 + digitVal d"
  using assms isdig_not_sign [of a]
  by (simp add: atoi_def leadingInt_step del: leadingInt.simps(2) split: if_splits)

lemma skip_dash: "skip v ''-'' = Some v1 \<longleftrightarrow> v = CHR ''-'' # v1"
  by (cases v) auto

lemma getnum_fixed:
  "getnum v True = Some (n, rest) \<longleftrightarrow>
     (\<exists>x y. v = x # y # rest \<and> isdig x \<and> isdig y \<and> n = digitVal x * 10 + digitVal y)"
proof (cases v)
  case Nil
  then show ?thesis by (simp add: getnum_def isDigit_def)
next
  case (Cons x v')
  show ?thesis
  proof (cases v')
    case Nil
    with Cons show ?thesis by (simp add: getnum_def isDigit_def)
  next
    case (Cons y v'')
    with \<open>v = x # v'\<close> show ?thesis
      by (auto simp: getnum_def isDigit_def isdig_def)
  qed
qed

lemma time_Parse_shape:
  assumes "time_Parse s = Inr t"
  shows "\<exists>a b c d m1 m2 d1 d2.
           s = [a, b, c, d, CHR ''-'', m1, m2, CHR ''-'', d1, d2] \<and>
           isdig a \<and> isdig b \<and> isdig c \<and> isdig d \<and> isdig m1 \<and> isdig m2 \<and> isdig d1 \<and> isdig d2 \<and>
           t = time_Date (((digitVal a * 10 + digitVal b) * 10 + digitVal c) * 10 + digitVal d)
                 (digitVal m1 * 10 + digitVal m2) (digitVal d1 * 10 + digitVal d2) 0 0 0 0"
proof -
  from assms have len: "4 \<le> length s" and d0: "isDigit s 0"
    by (auto simp: time_Parse_def split: if_splits)
  then obtain a b c d r where s: "s = a # b # c # d # r"
    by (cases s; cases "tl s"; cases "tl (tl s)"; cases "tl (tl (tl s))") auto
  with d0 have a: "isdig a" by (simp add: isDigit_def isdig_def)
  from assms s obtain year v1 month v2 v3 day where
    y: "atoi [a, b, c, d] = Some year" and v1: "skip r ''-'' = Some v1"
    and m: "getnum v1 True = Some (month, v2)" and v3: "skip v2 ''-'' = Some v3"
    and dd: "getnum v3 True = Some (day, [])" and t: "t = time_Date year month day 0 0 0 0"
    by (auto simp: time_Parse_def split: if_splits option.splits)
  from v1 have r: "r = CHR ''-'' # v1" by (simp only: skip_dash)
  from v3 have v2: "v2 = CHR ''-'' # v3" by (simp only: skip_dash)
  from m obtain m1 m2 where m12: "v1 = m1 # m2 # v2" "isdig m1" "isdig m2"
    "month = digitVal m1 * 10 + digitVal m2"
    unfolding getnum_fixed by blast
  from dd obtain d1 d2 where d12: "v3 = [d1, d2]" "isdig d1" "isdig d2"
    "day = digitVal d1 * 10 + digitVal d2"
    unfolding getnum_fixed by blast
  from atoi4 [OF y a] have bcd: "isdig b" "isdig c" "isdig d"
    and yr: "year = ((digitVal a * 10 + digitVal b) * 10 + digitVal c) * 10 + digitVal d"
    by simp_all
  have "s = [a, b, c, d, CHR ''-'', m1, m2, CHR ''-'', d1, d2]"
    using s r v2 m12(1) d12(1) by simp
  with a bcd m12 d12 yr t show ?thesis by blast
qed

text \<open>
  A parsed date is a calendar date at midnight: its fields are in range, so that
  \<^verbatim>\<open>time.Date\<close> has nothing to normalise on them.
\<close>

lemma time_Parse_in_range:
  assumes "time_Parse s = Inr t"
  shows "1 \<le> Month t \<and> Month t \<le> 12 \<and> 1 \<le> Day t \<and> Day t \<le> daysIn (Month t) (Year t) \<and>
         0 \<le> Year t \<and> Year t \<le> 9999 \<and>
         Hour t = 0 \<and> Minute t = 0 \<and> Second t = 0 \<and> Nanosecond t = 0"
proof -
  from assms obtain year month day where t: "t = time_Date year month day 0 0 0 0"
    and r: "\<not> (month \<le> 0 \<or> 12 < month)" "\<not> (day < 1 \<or> daysIn month year < day)"
    by (auto simp: time_Parse_def split: if_splits option.splits)
  from time_Parse_shape [OF assms] obtain a b c d m1 m2 d1 d2 where
    dig: "isdig a" "isdig b" "isdig c" "isdig d"
    and t': "t = time_Date (((digitVal a * 10 + digitVal b) * 10 + digitVal c) * 10 + digitVal d)
                 (digitVal m1 * 10 + digitVal m2) (digitVal d1 * 10 + digitVal d2) 0 0 0 0"
    by blast
  from dig have "0 \<le> digitVal a \<and> digitVal a \<le> 9" "0 \<le> digitVal b \<and> digitVal b \<le> 9"
    "0 \<le> digitVal c \<and> digitVal c \<le> 9" "0 \<le> digitVal d \<and> digitVal d \<le> 9"
    using digit_roundtrip by (simp_all add: isdig_def)
  then have "0 \<le> Year t \<and> Year t \<le> 9999" unfolding t' time_Date_def by simp
  with t r show ?thesis by (simp add: time_Date_def)
qed

lemma divmod10: "d < 10 \<Longrightarrow> (x * 10 + d) div 10 = x \<and> (x * 10 + d) mod 10 = (d::nat)"
  by simp

lemma fixedDigits4:
  assumes "a < 10" "b < 10" "c < 10" "d < 10"
  shows "fixedDigits (Suc (Suc (Suc (Suc 0)))) (((a * 10 + b) * 10 + c) * 10 + d) =
         [digitChar a, digitChar b, digitChar c, digitChar d]"
proof -
  have "a div 10 = 0" "a mod 10 = a" using assms by simp_all
  then show ?thesis
    by (simp only: fixedDigits.simps divmod10 [OF assms(4)] divmod10 [OF assms(3)]
        divmod10 [OF assms(2)] append_Nil append_Cons)
qed

lemma fixedDigits2:
  assumes "a < 10" "b < 10"
  shows "fixedDigits (Suc (Suc 0)) (a * 10 + b) = [digitChar a, digitChar b]"
proof -
  have "a div 10 = 0" "a mod 10 = a" using assms by simp_all
  then show ?thesis
    by (simp only: fixedDigits.simps divmod10 [OF assms(2)] append_Nil append_Cons)
qed

lemma four: "(4::nat) = Suc (Suc (Suc (Suc 0)))" and three: "(3::nat) = Suc (Suc (Suc 0))"
  and two: "(2::nat) = Suc (Suc 0)"
  by simp_all

lemma appendInt4:
  assumes "isdig a" "isdig b" "isdig c" "isdig d"
  shows "appendInt (((digitVal a * 10 + digitVal b) * 10 + digitVal c) * 10 + digitVal d) 4 =
         [a, b, c, d]"
proof -
  let ?a = "nat (digitVal a)" and ?b = "nat (digitVal b)"
  let ?c = "nat (digitVal c)" and ?d = "nat (digitVal d)"
  let ?x = "((digitVal a * 10 + digitVal b) * 10 + digitVal c) * 10 + digitVal d"
  from assms have rc: "digitChar ?a = a" "digitChar ?b = b" "digitChar ?c = c" "digitChar ?d = d"
    using digit_roundtrip by (simp_all add: isdig_def)
  from assms have r: "0 \<le> digitVal a" "digitVal a \<le> 9" "0 \<le> digitVal b" "digitVal b \<le> 9"
    "0 \<le> digitVal c" "digitVal c \<le> 9" "0 \<le> digitVal d" "digitVal d \<le> 9"
    using digit_roundtrip by (simp_all add: isdig_def)
  then have n: "nat ?x = ((?a * 10 + ?b) * 10 + ?c) * 10 + ?d" and pos: "0 \<le> ?x"
    by (simp_all add: nat_add_distrib nat_mult_distrib)
  have "nat ?x < 10 ^ Suc 3" using r by simp
  from appendInt_fixed [OF pos this]
  have "appendInt ?x 4 = fixedDigits (Suc (Suc (Suc (Suc 0)))) (nat ?x)"
    by (simp only: four three)
  also have "\<dots> = [digitChar ?a, digitChar ?b, digitChar ?c, digitChar ?d]"
  proof -
    have "?a < 10" "?b < 10" "?c < 10" "?d < 10" using r by simp_all
    from fixedDigits4 [OF this] show ?thesis by (simp only: n)
  qed
  finally show ?thesis by (simp only: rc)
qed

lemma appendInt2:
  assumes "isdig a" "isdig b"
  shows "appendInt (digitVal a * 10 + digitVal b) 2 = [a, b]"
proof -
  let ?a = "nat (digitVal a)" and ?b = "nat (digitVal b)"
  let ?x = "digitVal a * 10 + digitVal b"
  from assms have rc: "digitChar ?a = a" "digitChar ?b = b"
    using digit_roundtrip by (simp_all add: isdig_def)
  from assms have r: "0 \<le> digitVal a" "digitVal a \<le> 9" "0 \<le> digitVal b" "digitVal b \<le> 9"
    using digit_roundtrip by (simp_all add: isdig_def)
  then have n: "nat ?x = ?a * 10 + ?b" and pos: "0 \<le> ?x"
    by (simp_all add: nat_add_distrib nat_mult_distrib)
  have "nat ?x < 10 ^ Suc 1" using r by simp
  from appendInt_fixed [OF pos this]
  have "appendInt ?x 2 = fixedDigits (Suc (Suc 0)) (nat ?x)"
    by (simp only: two One_nat_def)
  also have "\<dots> = [digitChar ?a, digitChar ?b]"
  proof -
    have "?a < 10" "?b < 10" using r by simp_all
    from fixedDigits2 [OF this] show ?thesis by (simp only: n)
  qed
  finally show ?thesis by (simp only: rc)
qed

lemma clock_fields:
  "appendInt 3 2 = ''03''" "appendInt 0 2 = ''00''" "take 3 (appendInt 0 9) = ''000''"
  by code_simp+

lemma time_Format_ms_of_parsed:
  assumes "time_Parse s = Inr t"
  shows "time_Format_ms (time_Date (Year t) (Month t) (Day t) 3 0 0 0) = s @ ''T03:00:00.000Z''"
proof -
  from time_Parse_shape [OF assms] obtain a b c d m1 m2 d1 d2 where
    s: "s = [a, b, c, d, CHR ''-'', m1, m2, CHR ''-'', d1, d2]"
    and dig: "isdig a" "isdig b" "isdig c" "isdig d" "isdig m1" "isdig m2" "isdig d1" "isdig d2"
    and t: "t = time_Date (((digitVal a * 10 + digitVal b) * 10 + digitVal c) * 10 + digitVal d)
                 (digitVal m1 * 10 + digitVal m2) (digitVal d1 * 10 + digitVal d2) 0 0 0 0"
    by blast
  show ?thesis
    unfolding t s time_Format_ms_def time_Date_def
    by (simp only: go_Time.simps appendInt4 [OF dig(1-4)] appendInt2 [OF dig(5,6)]
        appendInt2 [OF dig(7,8)] clock_fields append_Cons append_Nil)
qed

lemma isDataForm_of_parsed:
  assumes "time_Parse s = Inr t"
  shows "isDataForm (s @ ''T03:00:00.000Z'')"
proof -
  from time_Parse_shape [OF assms] obtain a b c d m1 m2 d1 d2 where
    s: "s = [a, b, c, d, CHR ''-'', m1, m2, CHR ''-'', d1, d2]"
    and dig: "isdig a" "isdig b" "isdig c" "isdig d" "isdig m1" "isdig m2" "isdig d1" "isdig d2"
    by blast
  show ?thesis unfolding s isDataForm_def using dig by simp
qed

lemma isdig_htmlSafe: "isdig c \<Longrightarrow> htmlSafe c"
  unfolding isdig_def htmlSafe_def quote_def backslash_def less_eq_char_def
  by auto

lemma plain_of_parsed:
  assumes "time_Parse s = Inr t"
  shows "list_all htmlSafe (s @ ''T03:00:00.000Z'')"
proof -
  from time_Parse_shape [OF assms] obtain a b c d m1 m2 d1 d2 where
    s: "s = [a, b, c, d, CHR ''-'', m1, m2, CHR ''-'', d1, d2]"
    and dig: "isdig a" "isdig b" "isdig c" "isdig d" "isdig m1" "isdig m2" "isdig d1" "isdig d2"
    by blast
  have fixed: "list_all htmlSafe ''-T03:00:00.000Z''" by code_simp
  then show ?thesis unfolding s using dig by (simp add: isdig_htmlSafe)
qed

lemma appendString_plain: "list_all htmlSafe s \<Longrightarrow> appendString s = s"
  by (induction s) (auto simp: htmlSafe_def)

lemma json_env_plain: "json_Marshal_plain json_env"
  by (simp add: json_Marshal_plain_def json_env_def encoding_json_Marshal_def appendString_plain)

lemma submitBooking_io_result: "snd (submitBooking_io e cfg request) = submitBooking e cfg request"
  by (simp add: submitBooking_io_def submitBooking_def Let_def split: sum.splits)

lemma submitBooking_io_sent:
  "fst (submitBooking_io e cfg request) =
     (case json_Marshal e request of
        Inl er \<Rightarrow> []
      | Inr body \<Rightarrow> [(BaseURL cfg @ ''/vagas'', ''application/json'', body)])"
  by (simp add: submitBooking_io_def Let_def split: sum.splits)

text \<open>
  Claim C6, as amended. \<^verbatim>\<open>bookAppointment\<close> sends at most one request. When it sends one, it is
  a POST to \<^verbatim>\<open>{base}/vagas\<close> with content type \<^verbatim>\<open>application/json\<close> whose body is what
  \<^verbatim>\<open>json.Marshal\<close> makes of the request with \<^verbatim>\<open>id_ordem\<close> the slot's order, \<^verbatim>\<open>data\<close> the slot's date
  followed by \<^verbatim>\<open>T03:00:00.000Z\<close>, which is of the form \<^verbatim>\<open>YYYY-MM-DDT03:00:00.000Z\<close> and does not
  depend on the slot's time, and \<^verbatim>\<open>hora\<close> the first 5 bytes of the slot's time; the answer to
  this POST decides the result. When the encoder keeps plain bytes and these 5 bytes are
  plain, the body is the object that holds the three values as they are. A request is sent
  whenever the date parses, the time has at least 5 bytes and the request is marshalled.
\<close>

theorem bookAppointment_wire_format:
  "(bookAppointment_io e cfg slot = Panicked \<longleftrightarrow> bookAppointment e cfg slot = Panicked) \<and>
   (\<forall>sent result. bookAppointment_io e cfg slot = Returned (sent, result) \<longrightarrow>
      bookAppointment e cfg slot = Returned result \<and>
      (sent = [] \<or>
       (\<exists>body. sent = [(BaseURL cfg @ ''/vagas'', ''application/json'', body)] \<and>
          json_Marshal e \<lparr>IDOrdem = OrderID slot, Data = Date slot @ ''T03:00:00.000Z'',
                          Hora = take 5 (Time slot)\<rparr> = Inr body \<and>
          isDataForm (Date slot @ ''T03:00:00.000Z'') \<and> length (take 5 (Time slot)) = 5 \<and>
          (json_Marshal_plain e \<and> list_all htmlSafe (take 5 (Time slot)) \<longrightarrow>
             body = json_object (OrderID slot) (Date slot @ ''T03:00:00.000Z'')
                      (take 5 (Time slot))) \<and>
          (\<forall>er. httpPost e (BaseURL cfg @ ''/vagas'') ''application/json'' body = Inl er \<longrightarrow>
             result = (zeroBookingResponse, Some (HTTPRequestFailed er))) \<and>
          (\<forall>resp responseBody bookingResponse.
             httpPost e (BaseURL cfg @ ''/vagas'') ''application/json'' body = Inr resp \<and>
             Body resp = Inr responseBody \<and> StatusCode resp = 200 \<and>
             json_Unmarshal_booking e responseBody = Inr bookingResponse \<and>
             Agendou bookingResponse = 1 \<longrightarrow>
             result = (bookingResponse, None))))) \<and>
   (\<forall>t body. time_Parse (Date slot) = Inr t \<and> 5 \<le> length (Time slot) \<and>
      json_Marshal e \<lparr>IDOrdem = OrderID slot, Data = Date slot @ ''T03:00:00.000Z'',
                      Hora = take 5 (Time slot)\<rparr> = Inr body \<longrightarrow>
      (\<exists>result. bookAppointment_io e cfg slot =
         Returned ([(BaseURL cfg @ ''/vagas'', ''application/json'', body)], result)))"
proof -
  let ?request = "\<lparr>IDOrdem = OrderID slot, Data = Date slot @ ''T03:00:00.000Z'',
                    Hora = take 5 (Time slot)\<rparr>"
  let ?url = "BaseURL cfg @ ''/vagas''"
  have built: "bookingRequest slot = Returned (Inr ?request)"
    if t: "time_Parse (Date slot) = Inr t" and len: "5 \<le> length (Time slot)" for t
    using t len time_Format_ms_of_parsed [OF t]
    by (simp add: bookingRequest_def slice_to_def Let_def)
  have shape: "request = ?request \<and> (\<exists>t. time_Parse (Date slot) = Inr t) \<and>
      5 \<le> length (Time slot)"
    if "bookingRequest slot = Returned (Inr request)" for request
  proof -
    from that obtain t where t: "time_Parse (Date slot) = Inr t"
      and len: "5 \<le> length (Time slot)"
      by (auto simp: bookingRequest_def slice_to_def Let_def split: sum.splits if_splits)
    from built [OF t len] that t len show ?thesis by auto
  qed
  have a: "bookAppointment_io e cfg slot = Panicked \<longleftrightarrow> bookAppointment e cfg slot = Panicked"
    by (simp add: bookAppointment_io_def bookAppointment_def
        split: go_result.splits sum.splits)
  have b: "bookAppointment e cfg slot = Returned result \<and>
      (sent = [] \<or>
       (\<exists>body. sent = [(?url, ''application/json'', body)] \<and>
          json_Marshal e ?request = Inr body \<and>
          isDataForm (Date slot @ ''T03:00:00.000Z'') \<and> length (take 5 (Time slot)) = 5 \<and>
          (json_Marshal_plain e \<and> list_all htmlSafe (take 5 (Time slot)) \<longrightarrow>
             body = json_object (OrderID slot) (Date slot @ ''T03:00:00.000Z'')
                      (take 5 (Time slot))) \<and>
          (\<forall>er. httpPost e ?url ''application/json'' body = Inl er \<longrightarrow>
             result = (zeroBookingResponse, Some (HTTPRequestFailed er))) \<and>
          (\<forall>resp responseBody bookingResponse.
             httpPost e ?url ''application/json'' body = Inr resp \<and>
             Body resp = Inr responseBody \<and> StatusCode resp = 200 \<and>
             json_Unmarshal_booking e responseBody = Inr bookingResponse \<and>
             Agendou bookingResponse = 1 \<longrightarrow>
             result = (bookingResponse, None))))"
    if io: "bookAppointment_io e cfg slot = Returned (sent, result)" for sent result
  proof (cases "bookingRequest slot")
    case Panicked
    with io show ?thesis by (simp add: bookAppointment_io_def)
  next
    case (Returned x)
    show ?thesis
    proof (cases x)
      case (Inl er)
      with Returned io show ?thesis
        by (auto simp: bookAppointment_io_def bookAppointment_def)
    next
      case (Inr request)
      with Returned shape obtain t where req: "request = ?request"
        and t: "time_Parse (Date slot) = Inr t" and len: "5 \<le> length (Time slot)" by blast
      from Returned Inr req io have sub: "submitBooking_io e cfg ?request = (sent, result)"
        by (simp add: bookAppointment_io_def)
      from Returned Inr req have "bookAppointment e cfg slot =
          Returned (submitBooking e cfg ?request)" by (simp add: bookAppointment_def)
      with sub submitBooking_io_result [of e cfg ?request]
      have 1: "bookAppointment e cfg slot = Returned result" by simp
      show ?thesis
      proof (cases "json_Marshal e ?request")
        case (Inl er)
        with sub have "sent = []" by (simp add: submitBooking_io_def)
        with 1 show ?thesis by simp
      next
        case (Inr body)
        with sub have 2: "sent = [(?url, ''application/json'', body)]"
          using submitBooking_io_sent [of e cfg ?request] by simp
        have 3: "isDataForm (Date slot @ ''T03:00:00.000Z'')"
          using t by (rule isDataForm_of_parsed)
        from len have 4: "length (take 5 (Time slot)) = 5" by simp
        have 5: "body = json_object (OrderID slot) (Date slot @ ''T03:00:00.000Z'')
                      (take 5 (Time slot))"
          if "json_Marshal_plain e" "list_all htmlSafe (take 5 (Time slot))"
          using that plain_of_parsed [OF t] Inr by (simp add: json_Marshal_plain_def)
        have 6: "result = (zeroBookingResponse, Some (HTTPRequestFailed er))"
          if "httpPost e ?url ''application/json'' body = Inl er" for er
          using that sub Inr by (simp add: submitBooking_io_def Let_def)
        have 7: "result = (bookingResponse, None)"
          if "httpPost e ?url ''application/json'' body = Inr resp"
            "Body resp = Inr responseBody" "StatusCode resp = 200"
            "json_Unmarshal_booking e responseBody = Inr bookingResponse"
            "Agendou bookingResponse = 1" for resp responseBody bookingResponse
          using that sub Inr by (simp add: submitBooking_io_def Let_def)
        from 1 2 Inr 3 4 5 6 7 show ?thesis by blast
      qed
    qed
  qed
  have c: "\<exists>result. bookAppointment_io e cfg slot =
         Returned ([(?url, ''application/json'', body)], result)"
    if t: "time_Parse (Date slot) = Inr t" and len: "5 \<le> length (Time slot)"
      and m: "json_Marshal e ?request = Inr body" for t body
  proof -
    from built [OF t len] have "bookAppointment_io e cfg slot =
        Returned (submitBooking_io e cfg ?request)" by (simp add: bookAppointment_io_def)
    moreover from m submitBooking_io_sent [of e cfg ?request]
    have "fst (submitBooking_io e cfg ?request) = [(?url, ''application/json'', body)]" by simp
    ultimately show ?thesis by (cases "submitBooking_io e cfg ?request") auto
  qed
  from a b c show ?thesis by blast
qed

text \<open>
  The booking of 09:00:00 on the service with the encoder of \<^verbatim>\<open>encoding/json\<close>: one POST,
  whose body is the object with \<^verbatim>\<open>hora\<close> 09:00.
\<close>

theorem bookAppointment_wire_format_witness:
  "bookAppointment_io json_env demo_cfg slot09 =
     Returned ([(''http://itep/api/vagas'', ''application/json'',
                 json_object 1 ''2024-06-10T03:00:00.000Z'' ''09:00'')],
               (\<lparr>CodigoVaga = ''A1'', Agendou = 1\<rparr>, None)) \<and>
   bookAppointment json_env demo_cfg slot09 = Returned (\<lparr>CodigoVaga = ''A1'', Agendou = 1\<rparr>, None) \<and>
   isDataForm ''2024-06-10T03:00:00.000Z''"
proof -
  have io: "bookAppointment_io json_env demo_cfg slot09 =
     Returned ([(''http://itep/api/vagas'', ''application/json'',
                 json_object 1 ''2024-06-10T03:00:00.000Z'' ''09:00'')],
               (\<lparr>CodigoVaga = ''A1'', Agendou = 1\<rparr>, None))"
    by code_simp
  have d: "Date slot09 @ ''T03:00:00.000Z'' = ''2024-06-10T03:00:00.000Z''" by code_simp
  from bookAppointment_wire_format [of json_env demo_cfg slot09] io
  have "bookAppointment json_env demo_cfg slot09 =
      Returned (\<lparr>CodigoVaga = ''A1'', Agendou = 1\<rparr>, None) \<and>
    isDataForm (Date slot09 @ ''T03:00:00.000Z'')" by blast
  with io show ?thesis unfolding d by simp
qed

text \<open>
  The claim as it stands fails on a slot whose time is a text with an accented letter at
  its fifth byte. The first 5 bytes of the time end with the byte C3, the first half of the
  letter; the encoder replaces it, and on the wire \<^verbatim>\<open>hora\<close> is the four bytes before it
  followed by the escape of U+FFFD: neither the first 5 bytes of the time nor its first 5
  characters, which end with the whole letter.
\<close>

theorem wire_format_counterexample:
  "bookAppointment_io json_env demo_cfg cut_slot =
     Returned ([(''http://itep/api/vagas'', ''application/json'',
                 json_object 1 ''2024-06-10T03:00:00.000Z'' (''10h '' @ [backslash] @ ''ufffd''))],
               (zeroBookingResponse, Some (HTTPError 500 ''Internal Server Error''))) \<and>
   take 5 (Time cut_slot) = ''10h '' @ [CHR 0xC3] \<and>
   json_object 1 ''2024-06-10T03:00:00.000Z'' (''10h '' @ [backslash] @ ''ufffd'') \<noteq>
   json_object 1 ''2024-06-10T03:00:00.000Z'' (take 5 (Time cut_slot)) \<and>
   json_object 1 ''2024-06-10T03:00:00.000Z'' (''10h '' @ [backslash] @ ''ufffd'') \<noteq>
   json_object 1 ''2024-06-10T03:00:00.000Z'' (''10h '' @ [CHR 0xC3, CHR 0xA0])"
  by code_simp

section \<open>Properties of the collection order\<close>

lemma sorted_by_Time:
  "sorted_wrt (\<lambda>a b. \<not> Time b < Time a) xs = sorted (map Time xs)"
  by (simp only: sorted_map not_less)

lemma key_sort_contract:
  assumes "sort_Slice e = (\<lambda>less. sort_key Time)"
  shows "sort_Slice_contract e"
  unfolding sort_Slice_contract_def assms sorted_by_Time by simp

lemma key_sort_stable:
  assumes "sort_Slice e = (\<lambda>less. sort_key Time)"
  shows "sort_Slice_stable e"
  unfolding sort_Slice_stable_def assms by (simp add: sort_key_stable)

lemma reversing_sort_contract:
  assumes "sort_Slice e = (\<lambda>less. reversing_sort)"
  shows "sort_Slice_contract e"
  unfolding sort_Slice_contract_def assms sorted_by_Time reversing_sort_def by simp

lemma collectLoop_concat:
  "collectLoop e cfg td orders acc = acc @ concat (map (orderSlots e cfg td) orders)"
  by (induction orders arbitrary: acc) (auto simp: orderSlots_def split: sum.splits)

lemma orderSlots_failed:
  "(\<exists>er. getAvailableDates e cfg (ID order) = Inl er) \<or>
   (\<exists>er. getAvailableTimes e cfg (ID order) td = Inl er) \<Longrightarrow> orderSlots e cfg td order = []"
  by (auto simp: orderSlots_def split: sum.splits)

lemma orderSlots_ok:
  "getAvailableDates e cfg (ID order) = Inr dates \<Longrightarrow> dateFound td dates \<Longrightarrow>
   getAvailableTimes e cfg (ID order) td = Inr ts \<Longrightarrow>
   orderSlots e cfg td order = map (\<lambda>timeStr. \<lparr>OrderID = ID order, Date = td, Time = timeStr\<rparr>) ts"
  by (simp add: orderSlots_def)

lemma collectAllTimeSlots_mset:
  "sort_Slice_contract e \<Longrightarrow>
   mset (fst (collectAllTimeSlots e cfg orders)) =
   mset (concat (map (orderSlots e cfg (targetDate e)) orders))"
  by (simp add: collectAllTimeSlots_def Let_def sort_Slice_contract_def collectLoop_concat)

text \<open>
  Claim C5. Let the sort permute its input. If the dates lookup or the times lookup of an
  order fails, \<^verbatim>\<open>collectAllTimeSlots\<close> returns no error and, up to order, the slots that
  it returns without that order in the list; and every slot of every other order whose
  lookups succeed is among them.
\<close>

theorem collectAllTimeSlots_skips_failed_order:
  assumes "sort_Slice_contract e"
    and "(\<exists>er. getAvailableDates e cfg (ID bad) = Inl er) \<or>
         (\<exists>er. getAvailableTimes e cfg (ID bad) (targetDate e) = Inl er)"
  shows "snd (collectAllTimeSlots e cfg (before @ bad # after)) = None \<and>
         mset (fst (collectAllTimeSlots e cfg (before @ bad # after))) =
           mset (fst (collectAllTimeSlots e cfg (before @ after))) \<and>
         (\<forall>order \<in> set (before @ after). \<forall>dates ts.
            getAvailableDates e cfg (ID order) = Inr dates \<and> dateFound (targetDate e) dates \<and>
            getAvailableTimes e cfg (ID order) (targetDate e) = Inr ts \<longrightarrow>
            (\<forall>timeStr \<in> set ts.
               \<lparr>OrderID = ID order, Date = targetDate e, Time = timeStr\<rparr>
                 \<in> set (fst (collectAllTimeSlots e cfg (before @ bad # after)))))"
proof -
  let ?td = "targetDate e"
  have bad: "orderSlots e cfg ?td bad = []"
    using assms(2) by (rule orderSlots_failed)
  have m: "mset (fst (collectAllTimeSlots e cfg (before @ bad # after))) =
           mset (fst (collectAllTimeSlots e cfg (before @ after)))"
    using bad by (simp add: collectAllTimeSlots_mset [OF assms(1)])
  have n: "snd (collectAllTimeSlots e cfg (before @ bad # after)) = None"
    by (simp add: collectAllTimeSlots_def Let_def)
  have "\<lparr>OrderID = ID order, Date = ?td, Time = timeStr\<rparr>
          \<in> set (fst (collectAllTimeSlots e cfg (before @ bad # after)))"
    if o: "order \<in> set (before @ after)"
      and ok: "getAvailableDates e cfg (ID order) = Inr dates" "dateFound ?td dates"
        "getAvailableTimes e cfg (ID order) ?td = Inr ts"
      and t: "timeStr \<in> set ts" for order dates ts timeStr
  proof -
    have "\<lparr>OrderID = ID order, Date = ?td, Time = timeStr\<rparr> \<in> set (orderSlots e cfg ?td order)"
      using t by (simp add: orderSlots_ok [OF ok])
    with o have "\<lparr>OrderID = ID order, Date = ?td, Time = timeStr\<rparr>
          \<in> set (concat (map (orderSlots e cfg ?td) (before @ bad # after)))"
      by auto
    then have "\<lparr>OrderID = ID order, Date = ?td, Time = timeStr\<rparr>
          \<in># mset (fst (collectAllTimeSlots e cfg (before @ bad # after)))"
      by (simp only: collectAllTimeSlots_mset [OF assms(1)] set_mset_mset)
    then show ?thesis by simp
  qed
  with n m show ?thesis by blast
qed

theorem collectAllTimeSlots_skips_failed_order_witness:
  "sort_Slice_contract demo_env \<and>
   getAvailableDates demo_env demo_cfg (ID unreachable_order) = Inl (External ''connection refused'') \<and>
   mset (fst (collectAllTimeSlots demo_env demo_cfg ([] @ unreachable_order # [hd demo_orders]))) =
     mset [slot09, slot09, slot10] \<and>
   slot10 \<in> set (fst (collectAllTimeSlots demo_env demo_cfg ([] @ unreachable_order # [hd demo_orders])))"
proof -
  have c: "sort_Slice_contract demo_env"
    by (rule key_sort_contract) (simp add: demo_env_def)
  have f: "getAvailableDates demo_env demo_cfg (ID unreachable_order) =
             Inl (External ''connection refused'')" by code_simp
  then have f': "(\<exists>er. getAvailableDates demo_env demo_cfg (ID unreachable_order) = Inl er) \<or>
     (\<exists>er. getAvailableTimes demo_env demo_cfg (ID unreachable_order) (targetDate demo_env) = Inl er)"
    by blast
  have g: "fst (collectAllTimeSlots demo_env demo_cfg ([] @ [hd demo_orders])) =
             [slot09, slot09, slot10]" by code_simp
  have ok: "hd demo_orders \<in> set ([] @ [hd demo_orders])"
    "getAvailableDates demo_env demo_cfg (ID (hd demo_orders)) = Inr [''2024-06-10'']"
    "dateFound (targetDate demo_env) [''2024-06-10'']"
    "getAvailableTimes demo_env demo_cfg (ID (hd demo_orders)) (targetDate demo_env) =
       Inr [''09:00:00'', ''09:00:00'', ''10:00:00'']"
    "''10:00:00'' \<in> set [''09:00:00'', ''09:00:00'', ''10:00:00'']"
    by code_simp+
  have sl: "\<lparr>OrderID = ID (hd demo_orders), Date = targetDate demo_env, Time = ''10:00:00''\<rparr> = slot10"
    by code_simp
  from collectAllTimeSlots_skips_failed_order [OF c f', of "[]" "[hd demo_orders]"]
  have m: "mset (fst (collectAllTimeSlots demo_env demo_cfg ([] @ unreachable_order # [hd demo_orders]))) =
           mset (fst (collectAllTimeSlots demo_env demo_cfg ([] @ [hd demo_orders])))"
    and a: "\<forall>order \<in> set ([] @ [hd demo_orders]). \<forall>dates ts.
            getAvailableDates demo_env demo_cfg (ID order) = Inr dates \<and>
            dateFound (targetDate demo_env) dates \<and>
            getAvailableTimes demo_env demo_cfg (ID order) (targetDate demo_env) = Inr ts \<longrightarrow>
            (\<forall>timeStr \<in> set ts.
               \<lparr>OrderID = ID order, Date = targetDate demo_env, Time = timeStr\<rparr>
                 \<in> set (fst (collectAllTimeSlots demo_env demo_cfg
                               ([] @ unreachable_order # [hd demo_orders]))))"
    by blast+
  from a ok have "\<lparr>OrderID = ID (hd demo_orders), Date = targetDate demo_env, Time = ''10:00:00''\<rparr>
      \<in> set (fst (collectAllTimeSlots demo_env demo_cfg ([] @ unreachable_order # [hd demo_orders])))"
    by blast
  with sl m g c f show ?thesis by simp
qed

lemma dedupLoop_set:
  "Time ` set (dedupLoop xs used) = {t \<in> Time ` set xs. \<not> used t}"
proof (induction xs arbitrary: used)
  case Nil
  then show ?case by simp
next
  case (Cons x xs)
  show ?case
  proof (cases "used (Time x)")
    case True
    then show ?thesis using Cons [of used] by auto
  next
    case False
    have ih: "Time ` set (dedupLoop xs (used(Time x := True))) =
              {t \<in> Time ` set xs. t \<noteq> Time x \<and> \<not> used t}"
      by (simp only: Cons [of "used(Time x := True)"] fun_upd_apply) auto
    have "Time ` set (dedupLoop (x # xs) used) =
          insert (Time x) (Time ` set (dedupLoop xs (used(Time x := True))))"
      using False by (simp del: fun_upd_apply)
    also have "\<dots> = insert (Time x) {t \<in> Time ` set xs. t \<noteq> Time x \<and> \<not> used t}"
      by (simp only: ih)
    also have "\<dots> = {t \<in> Time ` set (x # xs). \<not> used t}"
      using False by auto
    finally show ?thesis .
  qed
qed

lemma dedupLoop_first:
  "s \<in> set (dedupLoop xs used) \<Longrightarrow> find (\<lambda>x. Time x = Time s) xs = Some s"
proof (induction xs arbitrary: used)
  case Nil
  then show ?case by simp
next
  case (Cons x xs)
  show ?case
  proof (cases "used (Time x)")
    case True
    with Cons.prems have s: "s \<in> set (dedupLoop xs used)" by simp
    from dedupLoop_unused [OF s] True have "Time x \<noteq> Time s" by auto
    with Cons.IH [OF s] show ?thesis by simp
  next
    case False
    with Cons.prems have "s = x \<or> s \<in> set (dedupLoop xs (used(Time x := True)))" by simp
    then show ?thesis
    proof
      assume "s = x" then show ?thesis by simp
    next
      assume s: "s \<in> set (dedupLoop xs (used(Time x := True)))"
      from dedupLoop_unused [OF s] have "Time x \<noteq> Time s" by (auto split: if_splits)
      with Cons.IH [OF s] show ?thesis by simp
    qed
  qed
qed

lemma subseq_sorted: "subseq xs ys \<Longrightarrow> sorted ys \<Longrightarrow> sorted (xs :: 'a :: linorder list)"
  by (induction rule: list_emb.induct) (auto dest: list_emb_set)

lemma dedupLoop_times_sorted:
  assumes "sorted (map Time xs)"
  shows "map Time (dedupLoop xs (\<lambda>_. False)) = sorted_list_of_set (Time ` set xs)"
proof -
  let ?d = "map Time (dedupLoop xs (\<lambda>_. False))"
  have "subseq ?d (map Time xs)" by (simp add: subseq_map dedupLoop_subseq)
  then have "sorted ?d" using assms by (rule subseq_sorted)
  moreover have "distinct ?d" by (rule dedupLoop_distinct)
  moreover have "set ?d = Time ` set xs" using dedupLoop_set [of xs "\<lambda>_. False"] by simp
  ultimately show ?thesis
    by (metis sorted_list_of_set.idem_if_sorted_distinct)
qed

lemma find_filter: "find P xs = (case filter P xs of [] \<Rightarrow> None | y # _ \<Rightarrow> Some y)"
  by (induction xs) auto

lemma find_concat_first:
  "find P (concat xss) = Some s \<Longrightarrow>
   \<exists>pre ys post. xss = pre @ ys # post \<and> s \<in> set ys \<and> (\<forall>zs \<in> set pre. \<forall>z \<in> set zs. \<not> P z)"
proof (induction xss)
  case Nil
  then show ?case by simp
next
  case (Cons xs xss)
  show ?case
  proof (cases "find P xs")
    case None
    then have no: "\<forall>z \<in> set xs. \<not> P z" by (simp add: find_None_iff)
    have "find P (xs @ concat xss) = find P (concat xss)"
      using None by (induction xs) (auto split: if_splits)
    with Cons.prems have "find P (concat xss) = Some s" by simp
    from Cons.IH [OF this] obtain pre ys post where
      "xss = pre @ ys # post" "s \<in> set ys" "\<forall>zs \<in> set pre. \<forall>z \<in> set zs. \<not> P z" by blast
    with no have "xs # xss = (xs # pre) @ ys # post \<and> s \<in> set ys \<and>
        (\<forall>zs \<in> set (xs # pre). \<forall>z \<in> set zs. \<not> P z)" by simp
    then show ?thesis by blast
  next
    case (Some y)
    have "find P (xs @ concat xss) = Some y"
      using Some by (induction xs) (auto split: if_splits)
    with Cons.prems have "y = s" by simp
    with Some have "s \<in> set xs" by (auto simp: find_Some_iff)
    then have "xs # xss = [] @ xs # xss \<and> s \<in> set xs \<and>
        (\<forall>zs \<in> set []. \<forall>z \<in> set zs. \<not> P z)" by simp
    then show ?thesis by blast
  qed
qed

lemma collectAllTimeSlots_sorted:
  "sort_Slice_contract e \<Longrightarrow> sorted (map Time (fst (collectAllTimeSlots e cfg orders)))"
  by (simp add: collectAllTimeSlots_def Let_def sort_Slice_contract_def sorted_map not_less)

lemma collectAllTimeSlots_stable:
  "sort_Slice_stable e \<Longrightarrow>
   find (\<lambda>x. Time x = t) (fst (collectAllTimeSlots e cfg orders)) =
   find (\<lambda>x. Time x = t) (concat (map (orderSlots e cfg (targetDate e)) orders))"
  by (simp add: find_filter collectAllTimeSlots_def Let_def sort_Slice_stable_def
      collectLoop_concat)

lemma orderSlots_OrderID: "s \<in> set (orderSlots e cfg td order) \<Longrightarrow> OrderID s = ID order"
  by (auto simp: orderSlots_def split: sum.splits if_splits)

lemma find_first:
  "\<forall>x \<in> set before. \<not> P x \<Longrightarrow> P y \<Longrightarrow> find P (before @ y # after) = Some y"
  by (induction before) auto

text \<open>
  Claim C7, as amended. Let \<^verbatim>\<open>sort.Slice\<close> keep its contract. The times of the selected slots
  are the earliest distinct times of the collected slots, in ascending order, as many as
  the configured count allows; each selected slot is the first slot of its time in the
  sorted list; and if the sort keeps slots of equal time in their order, each selected slot
  belongs to the first order, in input order, that offers its time.
\<close>

theorem selection_prefers_earliest_times:
  assumes "sort_Slice_contract e"
  shows "map Time (selectUniqueSlots cfg (fst (collectAllTimeSlots e cfg orders))) =
           take (nat (AppointmentCount cfg))
             (sorted_list_of_set (Time ` set (fst (collectAllTimeSlots e cfg orders)))) \<and>
         (\<forall>s \<in> set (selectUniqueSlots cfg (fst (collectAllTimeSlots e cfg orders))).
            find (\<lambda>x. Time x = Time s) (fst (collectAllTimeSlots e cfg orders)) = Some s) \<and>
         (sort_Slice_stable e \<longrightarrow> ties_to_first_order e cfg orders)"
proof -
  let ?all = "fst (collectAllTimeSlots e cfg orders)"
  let ?sel = "selectUniqueSlots cfg ?all"
  let ?k = "nat (AppointmentCount cfg)"
  let ?f = "orderSlots e cfg (targetDate e)"
  have sel: "?sel = take ?k (dedupLoop ?all (\<lambda>_. False))" by (rule selectUniqueSlots_eq)
  have "map Time ?sel = take ?k (map Time (dedupLoop ?all (\<lambda>_. False)))"
    by (simp only: sel take_map)
  then have a: "map Time ?sel = take ?k (sorted_list_of_set (Time ` set ?all))"
    by (simp only: dedupLoop_times_sorted [OF collectAllTimeSlots_sorted [OF assms]])
  have first: "find (\<lambda>x. Time x = Time s) ?all = Some s" if "s \<in> set ?sel" for s
  proof -
    from that have "s \<in> set (dedupLoop ?all (\<lambda>_. False))"
      unfolding sel by (rule in_set_takeD)
    then show ?thesis by (rule dedupLoop_first)
  qed
  have c: "map_option ID (first_offering e cfg orders (Time s)) = Some (OrderID s)"
    if st: "sort_Slice_stable e" and s: "s \<in> set ?sel" for s
  proof -
    from first [OF s] collectAllTimeSlots_stable [OF st, of "Time s" cfg orders]
    have "find (\<lambda>x. Time x = Time s) (concat (map ?f orders)) = Some s" by simp
    from find_concat_first [OF this] obtain pre ys post where
      m: "map ?f orders = pre @ ys # post" and ys: "s \<in> set ys"
      and pre: "\<forall>zs \<in> set pre. \<forall>z \<in> set zs. Time z \<noteq> Time s" by blast
    from m obtain before rest where o1: "orders = before @ rest" "pre = map ?f before"
      "ys # post = map ?f rest" by (auto simp: map_eq_append_conv)
    from o1(3) obtain order after where o2: "rest = order # after" "ys = ?f order"
      by (auto simp: Cons_eq_map_conv)
    let ?P = "\<lambda>order. list_ex (\<lambda>z. Time z = Time s) (?f order)"
    from pre o1(2) have "\<forall>x \<in> set before. \<not> ?P x" by (auto simp: list_ex_iff)
    moreover from ys o2(2) have "?P order" by (auto simp: list_ex_iff)
    ultimately have "find ?P (before @ order # after) = Some order" by (rule find_first)
    with o1(1) o2(1) have "first_offering e cfg orders (Time s) = Some order"
      by (simp add: first_offering_def)
    moreover from ys o2(2) have "OrderID s = ID order" by (simp add: orderSlots_OrderID)
    ultimately show ?thesis by simp
  qed
  have "ties_to_first_order e cfg orders" if "sort_Slice_stable e"
    unfolding ties_to_first_order_def list_all_iff using c [OF that] by blast
  with a first show ?thesis by blast
qed

theorem selection_prefers_earliest_times_witness:
  "sort_Slice_contract (tie_env (sort_key Time)) \<and> sort_Slice_stable (tie_env (sort_key Time)) \<and>
   selectUniqueSlots tie_cfg (fst (collectAllTimeSlots (tie_env (sort_key Time)) tie_cfg tie_orders)) =
     [\<lparr>OrderID = 2, Date = ''2024-06-10'', Time = ''08:00:00''\<rparr>,
      \<lparr>OrderID = 2, Date = ''2024-06-10'', Time = ''09:00:00''\<rparr>,
      \<lparr>OrderID = 1, Date = ''2024-06-10'', Time = ''10:00:00''\<rparr>] \<and>
   ties_to_first_order (tie_env (sort_key Time)) tie_cfg tie_orders"
proof -
  have c: "sort_Slice_contract (tie_env (sort_key Time))"
    by (rule key_sort_contract) (simp add: tie_env_def)
  have st: "sort_Slice_stable (tie_env (sort_key Time))"
    by (rule key_sort_stable) (simp add: tie_env_def)
  have v: "selectUniqueSlots tie_cfg
             (fst (collectAllTimeSlots (tie_env (sort_key Time)) tie_cfg tie_orders)) =
     [\<lparr>OrderID = 2, Date = ''2024-06-10'', Time = ''08:00:00''\<rparr>,
      \<lparr>OrderID = 2, Date = ''2024-06-10'', Time = ''09:00:00''\<rparr>,
      \<lparr>OrderID = 1, Date = ''2024-06-10'', Time = ''10:00:00''\<rparr>]"
    by code_simp
  from selection_prefers_earliest_times [OF c, of tie_cfg tie_orders] st
  have "ties_to_first_order (tie_env (sort_key Time)) tie_cfg tie_orders" by blast
  with c st v show ?thesis by blast
qed

text \<open>
  Claim C7 as stated fails for a sort that keeps the contract and is not stable. The first
  collected slot is the 10:00:00 of order 1, and the selection takes the 10:00:00 of order 2.
\<close>

theorem stable_tie_breaking_counterexample:
  "sort_Slice_contract (tie_env reversing_sort) \<and>
   \<not> ties_to_first_order (tie_env reversing_sort) tie_cfg tie_orders \<and>
   hd (collectLoop (tie_env reversing_sort) tie_cfg ''2024-06-10'' tie_orders []) =
     \<lparr>OrderID = 1, Date = ''2024-06-10'', Time = ''10:00:00''\<rparr> \<and>
   selectUniqueSlots tie_cfg (fst (collectAllTimeSlots (tie_env reversing_sort) tie_cfg tie_orders)) =
     [\<lparr>OrderID = 2, Date = ''2024-06-10'', Time = ''08:00:00''\<rparr>,
      \<lparr>OrderID = 2, Date = ''2024-06-10'', Time = ''09:00:00''\<rparr>,
      \<lparr>OrderID = 2, Date = ''2024-06-10'', Time = ''10:00:00''\<rparr>]"
proof -
  have c: "sort_Slice_contract (tie_env reversing_sort)"
    by (rule reversing_sort_contract) (simp add: tie_env_def)
  have n: "\<not> ties_to_first_order (tie_env reversing_sort) tie_cfg tie_orders" by code_simp
  have h: "hd (collectLoop (tie_env reversing_sort) tie_cfg ''2024-06-10'' tie_orders []) =
     \<lparr>OrderID = 1, Date = ''2024-06-10'', Time = ''10:00:00''\<rparr>" by code_simp
  have v: "selectUniqueSlots tie_cfg
      (fst (collectAllTimeSlots (tie_env reversing_sort) tie_cfg tie_orders)) =
     [\<lparr>OrderID = 2, Date = ''2024-06-10'', Time = ''08:00:00''\<rparr>,
      \<lparr>OrderID = 2, Date = ''2024-06-10'', Time = ''09:00:00''\<rparr>,
      \<lparr>OrderID = 2, Date = ''2024-06-10'', Time = ''10:00:00''\<rparr>]" by code_simp
  from c n h v show ?thesis by blast
qed

section \<open>Properties of the concurrent booking\<close>

lemma count_Nil [simp]: "count P [] = 0"
  by (simp add: count_def)

lemma count_Cons [simp]: "count P (p # ps) = (if P p then 1 else 0) + count P ps"
  by (simp add: count_def)

lemma count_update:
  "i < length ps \<Longrightarrow>
   count P (ps[i := q]) + (if P (ps ! i) then 1 else 0) = count P ps + (if P q then 1 else 0)"
proof (induction ps arbitrary: i)
  case Nil
  then show ?case by simp
next
  case (Cons p ps)
  then show ?case by (cases i) (auto split: if_splits)
qed

lemma count_pos: "i < length ps \<Longrightarrow> P (ps ! i) \<Longrightarrow> 0 < count P ps"
proof (induction ps arbitrary: i)
  case Nil
  then show ?case by simp
next
  case (Cons p ps)
  then show ?case by (cases i) auto
qed

lemma count_zero: "(\<And>i. i < length ps \<Longrightarrow> \<not> P (ps ! i)) \<Longrightarrow> count P ps = 0"
proof (induction ps)
  case Nil
  then show ?case by simp
next
  case (Cons p ps)
  from Cons.prems [of 0] have "\<not> P p" by simp
  moreover have "count P ps = 0"
  proof (rule Cons.IH)
    fix i assume "i < length ps"
    with Cons.prems [of "Suc i"] show "\<not> P (ps ! i)" by simp
  qed
  ultimately show ?case by simp
qed

lemma count_mono: "(\<And>p. P p \<Longrightarrow> Q p) \<Longrightarrow> count P ps \<le> count Q ps"
  by (induction ps) auto

lemma count_replicate: "count P (replicate n p) = (if P p then n else 0)"
  by (induction n) auto


lemma shape_init: "inv_shape slots (init slots)"
  by (simp add: inv_shape_def init_def)

lemma shape_step:
  assumes "step e cfg slots s s'" "inv_shape slots s"
  shows "inv_shape slots s'"
  using assms
proof (cases rule: step.cases)
  case spawn
  with assms(2) show ?thesis
    by (auto simp: inv_shape_def nth_list_update)
qed (auto simp: inv_shape_def nth_list_update)

lemma gate_init: "inv_gate (init slots)"
  by (simp add: inv_gate_def init_def count_replicate)

lemma gate_step:
  assumes "step e cfg slots s s'" "inv_shape slots s" "inv_gate s"
  shows "inv_gate s'"
  using assms(1)
proof (cases rule: step.cases)
  case spawn
  with assms(2) have "loop_index s < length (tasks s)" "tasks s ! loop_index s = NotStarted"
    by (simp_all add: inv_shape_def)
  with count_update [of "loop_index s" "tasks s" holdsGate AtAcquire] spawn assms(3)
  show ?thesis by (simp add: inv_gate_def)
next
  case (acquire i)
  with assms(2) have "i < length (tasks s)" by (simp add: inv_shape_def)
  with count_update [of i "tasks s" holdsGate AtBook] acquire assms(3)
  show ?thesis by (simp add: inv_gate_def)
next
  case (book i r)
  with assms(2) have "i < length (tasks s)" by (simp add: inv_shape_def)
  with count_update [of i "tasks s" holdsGate "AtWrite r"] book assms(3)
  show ?thesis by (simp add: inv_gate_def)
next
  case (book_panic i)
  with assms(2) have "i < length (tasks s)" by (simp add: inv_shape_def)
  with count_update [of i "tasks s" holdsGate "AtRelease True"] book_panic assms(3)
  show ?thesis by (simp add: inv_gate_def)
next
  case (store i r)
  with assms(2) have "i < length (tasks s)" by (simp add: inv_shape_def)
  with count_update [of i "tasks s" holdsGate "AtRelease False"] store assms(3)
  show ?thesis by (simp add: inv_gate_def)
next
  case (release i p)
  with assms(2) have "i < length (tasks s)" by (simp add: inv_shape_def)
  with count_update [of i "tasks s" holdsGate "AtDone p"] release assms(3)
  have "semaphore s = Suc (count holdsGate ((tasks s)[i := AtDone p]))" "semaphore s \<le> 5"
    by (simp_all add: inv_gate_def)
  with release show ?thesis by (simp add: inv_gate_def)
next
  case (wg_done i p)
  with assms(2) have "i < length (tasks s)" by (simp add: inv_shape_def)
  with count_update [of i "tasks s" holdsGate "Finished p"] wg_done assms(3)
  show ?thesis by (simp add: inv_gate_def)
next
  case (crash i)
  with assms(3) show ?thesis by (simp add: inv_gate_def)
next
  case wg_wait
  with assms(3) show ?thesis by (simp add: inv_gate_def)
qed

lemma wg_init: "inv_wg (init slots)"
  by (simp add: inv_wg_def init_def count_replicate)

lemma wg_step:
  assumes "step e cfg slots s s'" "inv_shape slots s" "inv_wg s"
  shows "inv_wg s'"
  using assms(1)
proof (cases rule: step.cases)
  case spawn
  with assms(2) have "loop_index s < length (tasks s)" "tasks s ! loop_index s = NotStarted"
    by (simp_all add: inv_shape_def)
  with count_update [of "loop_index s" "tasks s" active AtAcquire] spawn assms(3)
  show ?thesis by (simp add: inv_wg_def)
next
  case (acquire i)
  with assms(2) have "i < length (tasks s)" by (simp add: inv_shape_def)
  with count_update [of i "tasks s" active AtBook] acquire assms(3)
  show ?thesis by (simp add: inv_wg_def)
next
  case (book i r)
  with assms(2) have "i < length (tasks s)" by (simp add: inv_shape_def)
  with count_update [of i "tasks s" active "AtWrite r"] book assms(3)
  show ?thesis by (simp add: inv_wg_def)
next
  case (book_panic i)
  with assms(2) have "i < length (tasks s)" by (simp add: inv_shape_def)
  with count_update [of i "tasks s" active "AtRelease True"] book_panic assms(3)
  show ?thesis by (simp add: inv_wg_def)
next
  case (store i r)
  with assms(2) have "i < length (tasks s)" by (simp add: inv_shape_def)
  with count_update [of i "tasks s" active "AtRelease False"] store assms(3)
  show ?thesis by (simp add: inv_wg_def)
next
  case (release i p)
  with assms(2) have "i < length (tasks s)" by (simp add: inv_shape_def)
  with count_update [of i "tasks s" active "AtDone p"] release assms(3)
  show ?thesis by (simp add: inv_wg_def)
next
  case (wg_done i p)
  with assms(2) have "i < length (tasks s)" by (simp add: inv_shape_def)
  with count_update [of i "tasks s" active "Finished p"] wg_done assms(3)
  show ?thesis by (simp add: inv_wg_def)
next
  case (crash i)
  with assms(3) show ?thesis by (simp add: inv_wg_def)
next
  case wg_wait
  with assms(3) show ?thesis by (simp add: inv_wg_def)
qed

lemma results_init: "inv_results e cfg slots (init slots)"
  by (simp add: inv_results_def init_def)

lemma results_step:
  assumes "step e cfg slots s s'" "inv_shape slots s" "inv_results e cfg slots s"
  shows "inv_results e cfg slots s'"
  using assms(1)
proof (cases rule: step.cases)
  case (store i r)
  with assms(2) have len: "i < length (tasks s)" "i < length (results s)"
    by (simp_all add: inv_shape_def)
  from store assms(3) have "bookAppointment e cfg (slots ! i) = Returned r"
    unfolding inv_results_def by blast
  with store assms(3) len show ?thesis
    by (auto simp: inv_results_def nth_list_update)
qed (use assms(2,3) in \<open>auto simp: inv_results_def inv_shape_def nth_list_update\<close>)

lemma returned_init: "inv_returned slots (init slots)"
  by (simp add: inv_returned_def init_def)

lemma returned_step:
  assumes "step e cfg slots s s'" "inv_shape slots s" "inv_wg s" "inv_returned slots s"
  shows "inv_returned slots s'"
  using assms(1)
proof (cases rule: step.cases)
  case wg_wait
  have "\<exists>p. tasks s ! i = Finished p" if i: "i < length slots" for i
  proof -
    from wg_wait assms(3) have "count active (tasks s) = 0" by (simp add: inv_wg_def)
    with count_pos [of i "tasks s" active] i assms(2) have "\<not> active (tasks s ! i)"
      by (auto simp: inv_shape_def)
    moreover from wg_wait i assms(2) have "tasks s ! i \<noteq> NotStarted"
      by (simp add: inv_shape_def)
    ultimately show ?thesis by (cases "tasks s ! i") simp_all
  qed
  with wg_wait show ?thesis by (simp add: inv_returned_def)
next
  case spawn
  with assms(2) have "tasks s ! loop_index s = NotStarted" by (simp add: inv_shape_def)
  with spawn assms(4) have "\<not> returned s" by (auto simp: inv_returned_def)
  with spawn show ?thesis by (simp add: inv_returned_def)
qed (use assms(2,4) in \<open>auto simp: inv_returned_def inv_shape_def nth_list_update\<close>)

lemma reachable_inv:
  assumes "reachable e cfg slots s"
  shows "inv_shape slots s \<and> inv_gate s \<and> inv_wg s \<and> inv_results e cfg slots s \<and>
         inv_returned slots s"
  using assms
proof (induction rule: reachable.induct)
  case start
  show ?case
    by (simp add: shape_init gate_init wg_init results_init returned_init)
next
  case (after s s')
  then show ?case
    by (simp add: shape_step gate_step wg_step results_step returned_step)
qed













lemma fire_step: "fire e cfg slots ev s = Some s' \<Longrightarrow> step e cfg slots s s'"
proof (cases ev)
  case Spawn
  assume "fire e cfg slots ev s = Some s'"
  with Spawn have "\<not> crashed s" "loop_index s < length slots"
    and "s' = s\<lparr>wg := wg s + 1, tasks := (tasks s)[loop_index s := AtAcquire],
                  loop_index := loop_index s + 1\<rparr>"
    by (simp_all split: if_splits)
  with step.spawn [of s slots e cfg] show ?thesis by simp
next
  case (Acquire i)
  assume "fire e cfg slots ev s = Some s'"
  with Acquire show ?thesis by (auto split: if_splits intro: step.acquire [simplified])
next
  case (Book i)
  assume "fire e cfg slots ev s = Some s'"
  with Book show ?thesis
    by (auto split: if_splits go_result.splits intro: step.book [simplified] step.book_panic [simplified])
next
  case (Store i)
  assume "fire e cfg slots ev s = Some s'"
  with Store show ?thesis by (auto split: if_splits pc.splits intro: step.store [simplified])
next
  case (Release i)
  assume "fire e cfg slots ev s = Some s'"
  with Release show ?thesis by (auto split: if_splits pc.splits intro: step.release [simplified])
next
  case (Done i)
  assume "fire e cfg slots ev s = Some s'"
  with Done show ?thesis by (auto split: if_splits pc.splits intro: step.wg_done [simplified])
next
  case (Crash i)
  assume "fire e cfg slots ev s = Some s'"
  with Crash show ?thesis by (auto split: if_splits intro: step.crash [simplified])
next
  case Wait
  assume "fire e cfg slots ev s = Some s'"
  with Wait show ?thesis by (auto split: if_splits intro: step.wg_wait [simplified])
qed

lemma run_reachable:
  "reachable e cfg slots s \<Longrightarrow> run e cfg slots evs s = Some s' \<Longrightarrow> reachable e cfg slots s'"
proof (induction evs arbitrary: s)
  case Nil
  then show ?case by simp
next
  case (Cons ev evs)
  from Cons.prems(2) obtain s1 where f: "fire e cfg slots ev s = Some s1"
    and r: "run e cfg slots evs s1 = Some s'" by (auto split: option.splits)
  from Cons.prems(1) fire_step [OF f] have "reachable e cfg slots s1" by (rule reachable.after)
  from Cons.IH [OF this r] show ?case .
qed







text \<open>
  Claim C4. In every reachable state at most 5 goroutines are inside \<^verbatim>\<open>bookAppointment\<close>, and
  at most 5 are between the send on the channel and the receive from it; the channel holds
  exactly one value for each of those, so a goroutine that has left that region has given
  its place back, whether its call returned a response, returned an error or panicked: a
  step that takes a goroutine out of the region takes one value out of the channel, and
  when all goroutines have finished the channel is empty.
\<close>

theorem gate_admits_at_most_five:
  assumes "reachable e cfg slots s"
  shows "count inCall (tasks s) \<le> 5 \<and> count holdsGate (tasks s) \<le> 5 \<and>
         semaphore s = count holdsGate (tasks s) \<and>
         (\<forall>s'. step e cfg slots s s' \<longrightarrow>
            (\<forall>i < length slots. holdsGate (tasks s ! i) \<and> \<not> holdsGate (tasks s' ! i) \<longrightarrow>
               semaphore s' + 1 = semaphore s)) \<and>
         ((\<forall>i < length slots. \<exists>p. tasks s ! i = Finished p) \<longrightarrow> semaphore s = 0)"
proof -
  from reachable_inv [OF assms] have shape: "inv_shape slots s" and gate: "inv_gate s"
    by simp_all
  have "count inCall (tasks s) \<le> count holdsGate (tasks s)"
  proof (rule count_mono)
    fix p assume "inCall p" then show "holdsGate p" by (cases p) simp_all
  qed
  with gate have a: "count inCall (tasks s) \<le> 5" "count holdsGate (tasks s) \<le> 5"
    "semaphore s = count holdsGate (tasks s)" by (simp_all add: inv_gate_def)
  have b: "semaphore s' + 1 = semaphore s"
    if st: "step e cfg slots s s'" and i: "i < length slots" "holdsGate (tasks s ! i)"
      "\<not> holdsGate (tasks s' ! i)" for s' i
    using st
  proof (cases rule: step.cases)
    case spawn
    with i shape show ?thesis
      by (cases "i = loop_index s") (auto simp: inv_shape_def nth_list_update)
  next
    case (release j p)
    then show ?thesis by simp
  qed (use i shape in \<open>auto simp: inv_shape_def nth_list_update split: if_splits\<close>)
  have c: "semaphore s = 0" if fin: "\<forall>i < length slots. \<exists>p. tasks s ! i = Finished p"
  proof -
    have "count holdsGate (tasks s) = 0"
    proof (rule count_zero)
      fix i assume "i < length (tasks s)"
      with shape fin show "\<not> holdsGate (tasks s ! i)" by (auto simp: inv_shape_def)
    qed
    with a(3) show ?thesis by simp
  qed
  from a b c show ?thesis by blast
qed

text \<open>
  Six goroutines started, five admitted: the channel is full and the send of the sixth is
  not enabled.
\<close>

theorem gate_admits_at_most_five_witness:
  "reachable demo_env demo_cfg six_slots
     (the (run demo_env demo_cfg six_slots five_admitted (init six_slots))) \<and>
   semaphore (the (run demo_env demo_cfg six_slots five_admitted (init six_slots))) = 5 \<and>
   count holdsGate (tasks (the (run demo_env demo_cfg six_slots five_admitted (init six_slots)))) = 5 \<and>
   fire demo_env demo_cfg six_slots (Acquire 2)
     (the (run demo_env demo_cfg six_slots five_admitted (init six_slots))) = None"
proof -
  let ?s = "the (run demo_env demo_cfg six_slots five_admitted (init six_slots))"
  have ok: "run demo_env demo_cfg six_slots five_admitted (init six_slots) \<noteq> None" by code_simp
  then have "run demo_env demo_cfg six_slots five_admitted (init six_slots) = Some ?s" by simp
  with reachable.start have reach: "reachable demo_env demo_cfg six_slots ?s"
    by (rule run_reachable)
  have sem: "semaphore ?s = 5" by code_simp
  have blocked: "fire demo_env demo_cfg six_slots (Acquire 2) ?s = None" by code_simp
  from gate_admits_at_most_five [OF reach] sem
  have "count holdsGate (tasks ?s) = 5" by simp
  with reach sem blocked show ?thesis by blast
qed

section \<open>Properties of the run\<close>











end
